theory Spec2Isabelle
  imports Complex_Main
begin

section \<open>Data model\<close>

text \<open>
  The training program \<^verbatim>\<open>train.py\<close>: the environment factory \<^verbatim>\<open>make_env\<close>, the
  \<^verbatim>\<open>Workspace\<close> with its constructor, \<^verbatim>\<open>evaluate\<close> and \<^verbatim>\<open>run\<close>. Python integers are
  \<^typ>\<open>int\<close>, Python floats (rewards, the two termination flags, clock readings) are
  idealised as \<^typ>\<open>real\<close>: the program only adds rewards for logging and compares the
  flags with zero.
\<close>

datatype error =
    ZeroDivisionError
  | AssertionError
  | UnboundLocalError
  | InvalidConfigError
  | ShapeMismatchError
  | EmptyBufferError
  | TypeError

text \<open>An observation: a stacked image with its shape and its integer pixel values.\<close>

record image =
  img_shape :: "int list"
  img_data :: "nat list"

type_synonym action = "real list"

text \<open>The fields of \<^verbatim>\<open>cfg\<close> that \<^verbatim>\<open>train.py\<close> reads.\<close>

record config =
  seed :: int
  device :: string
  image_size :: int
  frame_stack :: int
  image_pad :: int
  replay_buffer_capacity :: int
  num_train_steps :: int
  num_seed_steps :: int
  num_train_iters :: int
  eval_frequency :: int
  num_eval_episodes :: int

text \<open>
  The attributes of the environment object that \<^verbatim>\<open>train.py\<close> reads:
  \<^verbatim>\<open>_max_episode_steps\<close>, \<^verbatim>\<open>observation_space.shape\<close>, \<^verbatim>\<open>action_space.shape\<close>,
  \<^verbatim>\<open>action_space.low.min()\<close> and \<^verbatim>\<open>action_space.high.max()\<close>.
\<close>

record env_attrs =
  max_episode_steps :: int
  observation_space_shape :: "int list"
  action_space_shape :: "int list"
  action_space_low_min :: real
  action_space_high_max :: real

section \<open>The replay buffer\<close>

text \<open>One row of the buffer: the six fields of a transition.\<close>

record transition =
  t_observation :: image
  t_action :: action
  t_reward :: real
  t_next_observation :: image
  t_done :: real
  t_done_no_max :: real

text \<open>
  The buffer object. A row that was never written is \<open>None\<close> (the storage is
  preallocated at construction).
\<close>

record buffer =
  observation_shape :: "int list"
  action_shape :: "int list"
  capacity :: int
  pad :: int
  buffer_device :: string
  rows :: "transition option list"
  write_index :: int
  buffer_size :: int

text \<open>
  Modelled from the spec: the constructor of \<^verbatim>\<open>ReplayBuffer\<close> (the module
  \<^verbatim>\<open>replay_buffer\<close> is imported by \<^verbatim>\<open>train.py\<close> and is not among the sources). The
  parameters are the five positional arguments of the call in \<^verbatim>\<open>Workspace.__init__\<close>;
  the failure conditions and the empty initial state are the spec's: construction fails
  with \<^verbatim>\<open>InvalidConfigError\<close> if the capacity is not positive, the pad is negative or a
  shape has a non-positive dimension.
\<close>

definition ReplayBuffer :: "int list \<Rightarrow> int list \<Rightarrow> int \<Rightarrow> int \<Rightarrow> string \<Rightarrow> error + buffer" where
  "ReplayBuffer obs_shape act_shape cap image_pad' dev =
     (if cap \<le> 0 \<or> image_pad' < 0 \<or> list_ex (\<lambda>d. d \<le> 0) obs_shape \<or> list_ex (\<lambda>d. d \<le> 0) act_shape
      then Inl InvalidConfigError
      else Inr \<lparr>observation_shape = obs_shape, action_shape = act_shape, capacity = cap,
                pad = image_pad', buffer_device = dev, rows = replicate (nat cap) None,
                write_index = 0, buffer_size = 0\<rparr>)"

text \<open>
  Modelled from the spec: the insertion method of \<^verbatim>\<open>ReplayBuffer\<close>, which \<^verbatim>\<open>train.py\<close>
  calls as \<^verbatim>\<open>add\<close> and the spec names \<^verbatim>\<open>insert\<close>. It fails with \<^verbatim>\<open>ShapeMismatchError\<close>,
  leaving the buffer as it was, when an observation or the action does not have the
  configured shape; otherwise it copies the six values into the row at \<open>write_index\<close>,
  then \<open>write_index = (write_index + 1) mod capacity\<close>, then
  \<open>size = min (size + 1) capacity\<close>.
\<close>

definition buffer_add ::
  "image \<Rightarrow> action \<Rightarrow> real \<Rightarrow> image \<Rightarrow> real \<Rightarrow> real \<Rightarrow> buffer \<Rightarrow> error + buffer" where
  "buffer_add obs act rew next_obs done' done_no_max b =
     (if img_shape obs \<noteq> observation_shape b \<or> img_shape next_obs \<noteq> observation_shape b
         \<or> [int (length act)] \<noteq> action_shape b
      then Inl ShapeMismatchError
      else Inr (b\<lparr>rows := (rows b)[nat (write_index b) :=
                         Some \<lparr>t_observation = obs, t_action = act, t_reward = rew,
                               t_next_observation = next_obs, t_done = done',
                               t_done_no_max = done_no_max\<rparr>],
                  write_index := (write_index b + 1) mod capacity b,
                  buffer_size := min (buffer_size b + 1) (capacity b)\<rparr>))"

text \<open>A sequence of insertions, stopping at the first one that fails.\<close>

fun insert_all :: "transition list \<Rightarrow> buffer \<Rightarrow> error + buffer" where
  "insert_all [] b = Inr b"
| "insert_all (t # ts) b =
     (case buffer_add (t_observation t) (t_action t) (t_reward t) (t_next_observation t)
             (t_done t) (t_done_no_max t) b of
        Inl e \<Rightarrow> Inl e
      | Inr b' \<Rightarrow> insert_all ts b')"

definition well_shaped :: "buffer \<Rightarrow> transition \<Rightarrow> bool" where
  "well_shaped b t \<longleftrightarrow>
     img_shape (t_observation t) = observation_shape b \<and>
     img_shape (t_next_observation t) = observation_shape b \<and>
     [int (length (t_action t))] = action_shape b"

section \<open>The collaborators of the training loop\<close>

text \<open>
  The simulator, the agent, the global random generators and the clock are outside
  \<^verbatim>\<open>train.py\<close>. Their hidden state is one value of type \<open>'w\<close>, which every call on
  them reads and replaces; what a call returns is a parameter of the model. The agent's
  update receives the buffer and the step counter as arguments and can fail (its sampling
  does on an empty buffer); it returns no new buffer, since by the spec only insertion
  mutates the storage. \<^verbatim>\<open>suite_make\<close> is the environment that
  \<^verbatim>\<open>GymWrapper(suite.make(...))\<close> returns for the configured image size and
  \<^verbatim>\<open>FrameStack\<close> the wrapper of \<^verbatim>\<open>utils\<close>.
\<close>

record 'w collab =
  suite_make :: "int \<Rightarrow> env_attrs"
  FrameStack :: "env_attrs \<Rightarrow> int \<Rightarrow> env_attrs"
  set_seed_everywhere :: "int \<Rightarrow> 'w \<Rightarrow> 'w"
  env_seed :: "int \<Rightarrow> 'w \<Rightarrow> 'w"
  instantiate_agent :: "int list \<Rightarrow> int list \<Rightarrow> real \<times> real \<Rightarrow> 'w \<Rightarrow> 'w"
  clock :: "'w \<Rightarrow> real \<times> 'w"
  env_reset :: "'w \<Rightarrow> image \<times> 'w"
  env_step :: "action \<Rightarrow> 'w \<Rightarrow> (image \<times> real \<times> bool) \<times> 'w"
  action_space_sample :: "'w \<Rightarrow> action \<times> 'w"
  agent_act :: "image \<Rightarrow> bool \<Rightarrow> 'w \<Rightarrow> action \<times> 'w"
  agent_update :: "buffer \<Rightarrow> int \<Rightarrow> 'w \<Rightarrow> error option \<times> 'w"

text \<open>
  The calls the program makes on its collaborators, in the order it makes them. A call
  on the environment records the routine that makes it; a call of the buffer's \<^verbatim>\<open>add\<close>
  records its six arguments in their positional order.
\<close>

datatype site = In_run | In_evaluate

datatype event =
    Env_reset site
  | Env_step site action
  | Action_space_sample
  | Agent_act image bool
  | Agent_update int
  | Buffer_add image action real image real real
  | Logger_log string real int
  | Logger_dump int "bool option"
  | Video_init bool
  | Video_record image
  | Video_save int

fun is_Buffer_add :: "event \<Rightarrow> bool" where
  "is_Buffer_add (Buffer_add obs act rew next_obs d dnm) = True"
| "is_Buffer_add e = False"

fun is_Agent_update :: "event \<Rightarrow> bool" where
  "is_Agent_update (Agent_update k) = True"
| "is_Agent_update e = False"

fun is_rollout_step :: "event \<Rightarrow> bool" where
  "is_rollout_step (Env_step In_run act) = True"
| "is_rollout_step e = False"

text \<open>An event that is neither an update, nor an insertion, nor a step of the rollout.\<close>

definition quiet :: "event \<Rightarrow> bool" where
  "quiet e \<longleftrightarrow> \<not> is_Agent_update e \<and> \<not> is_Buffer_add e \<and> \<not> is_rollout_step e"

text \<open>
  How a routine ends: it returns, it raises, or it is still running when the step budget
  of an evaluation episode is used up (the episode loop of \<^verbatim>\<open>evaluate\<close> runs until the
  environment reports \<^verbatim>\<open>done\<close>, which it may never do).
\<close>

datatype status = Returned | Raised error | Unfinished

section \<open>The environment factory and the workspace\<close>

text \<open>
  \<^verbatim>\<open>make_env\<close>: the environment is built, its \<^verbatim>\<open>_max_episode_steps\<close> is set to 250, it is
  wrapped in \<^verbatim>\<open>FrameStack\<close> and seeded, and the two assertions on the action range are
  checked. (The names the function derives from \<^verbatim>\<open>cfg.env\<close> are used only by code that
  is commented out.)
\<close>

definition make_env :: "'w collab \<Rightarrow> config \<Rightarrow> 'w \<Rightarrow> error + env_attrs \<times> 'w" where
  "make_env c cf w =
     (let env0 = suite_make c (image_size cf);
          env1 = env0\<lparr>max_episode_steps := 250\<rparr>;
          env2 = FrameStack c env1 (frame_stack cf);
          w' = env_seed c (seed cf) w
      in if \<not> (- 1 \<le> action_space_low_min env2) then Inl AssertionError
         else if \<not> (action_space_high_max env2 \<le> 1) then Inl AssertionError
         else Inr (env2, w'))"

record 'w workspace =
  cfg :: config
  env :: env_attrs
  replay_buffer :: buffer
  step :: int
  world :: 'w
  trace :: "event list"

text \<open>
  The values \<^verbatim>\<open>Workspace.__init__\<close> passes to the constructor of the buffer, in their
  positional order.
\<close>

datatype ctor_arg = Shape_arg "int list" | Int_arg int | Device_arg string

definition replay_buffer_args :: "config \<Rightarrow> env_attrs \<Rightarrow> ctor_arg list" where
  "replay_buffer_args cf e =
     [Shape_arg (observation_space_shape e), Shape_arg (action_space_shape e),
      Int_arg (replay_buffer_capacity cf), Int_arg (image_pad cf), Device_arg (device cf)]"

text \<open>
  The construction tuple as the specification words it:
  \<open>(observation_shape, action_shape, capacity, pad, device, rng_seed)\<close>.
\<close>

definition spec_construction_tuple :: "config \<Rightarrow> env_attrs \<Rightarrow> ctor_arg list" where
  "spec_construction_tuple cf e =
     [Shape_arg (observation_space_shape e), Shape_arg (action_space_shape e),
      Int_arg (replay_buffer_capacity cf), Int_arg (image_pad cf), Device_arg (device cf),
      Int_arg (seed cf)]"

text \<open>
  The call of the constructor on a list of arguments: a list that does not fit its five
  parameters is a \<^verbatim>\<open>TypeError\<close>.
\<close>

definition ReplayBuffer_call :: "ctor_arg list \<Rightarrow> error + buffer" where
  "ReplayBuffer_call args =
     (case args of
        [Shape_arg obs_shape, Shape_arg act_shape, Int_arg cap, Int_arg p, Device_arg dev] \<Rightarrow>
          ReplayBuffer obs_shape act_shape cap p dev
      | _ \<Rightarrow> Inl TypeError)"

text \<open>
  \<^verbatim>\<open>Workspace.__init__\<close>: the global generators are seeded, the environment is made, the
  agent is instantiated for the environment's shapes and action range, the buffer is
  constructed and the step counter starts at 0. (The logger and the video recorder are
  only written to; their calls appear in the trace.)
\<close>

definition Workspace_init :: "'w collab \<Rightarrow> config \<Rightarrow> 'w \<Rightarrow> error + 'w workspace" where
  "Workspace_init c cf w =
     (let w1 = set_seed_everywhere c (seed cf) w in
      case make_env c cf w1 of
        Inl e \<Rightarrow> Inl e
      | Inr (e, w2) \<Rightarrow>
          (let w3 = instantiate_agent c (observation_space_shape e) (action_space_shape e)
                      (action_space_low_min e, action_space_high_max e) w2 in
           case ReplayBuffer_call (replay_buffer_args cf e) of
             Inl err \<Rightarrow> Inl err
           | Inr b \<Rightarrow>
               Inr \<lparr>cfg = cf, env = e, replay_buffer = b, step = 0, world = w3, trace = []\<rparr>))"

section \<open>Evaluation\<close>

text \<open>
  The episode loop of \<^verbatim>\<open>evaluate\<close> (\<^verbatim>\<open>while not done\<close>), with the number of iterations
  left in the budget; it carries the locals \<^verbatim>\<open>obs\<close>, \<^verbatim>\<open>episode_reward\<close> and
  \<^verbatim>\<open>episode_step\<close> and returns the episode's reward.
\<close>

fun eval_loop ::
  "'w collab \<Rightarrow> nat \<Rightarrow> 'w workspace \<Rightarrow> image \<Rightarrow> real \<Rightarrow> int \<Rightarrow> status \<times> 'w workspace \<times> real" where
  "eval_loop c 0 ws ob ep_reward ep_step = (Unfinished, ws, ep_reward)"
| "eval_loop c (Suc n) ws ob ep_reward ep_step =
     (let (act, w1) = agent_act c ob False (world ws);
          ((ob', rew, d), w2) = env_step c act w1;
          ws' = ws\<lparr>world := w2,
                   trace := trace ws @ [Agent_act ob False, Env_step In_evaluate act, Video_record ob']\<rparr>
      in if d then (Returned, ws', ep_reward + rew)
         else eval_loop c n ws' ob' (ep_reward + rew) (ep_step + 1))"

text \<open>The loop over the evaluation episodes, with the running sum of their rewards.\<close>

fun eval_episodes ::
  "'w collab \<Rightarrow> nat \<Rightarrow> int list \<Rightarrow> 'w workspace \<Rightarrow> real \<Rightarrow> status \<times> 'w workspace \<times> real" where
  "eval_episodes c fuel [] ws reward_sum = (Returned, ws, reward_sum)"
| "eval_episodes c fuel (ep # eps) ws reward_sum =
     (let (ob, w1) = env_reset c (world ws);
          ws1 = ws\<lparr>world := w1, trace := trace ws @ [Env_reset In_evaluate, Video_init (ep = 0)]\<rparr>;
          (st, ws2, ep_reward) = eval_loop c fuel ws1 ob 0 0
      in if st \<noteq> Returned then (st, ws2, reward_sum)
         else eval_episodes c fuel eps (ws2\<lparr>trace := trace ws2 @ [Video_save (step ws2)]\<rparr>)
                (reward_sum + ep_reward))"

text \<open>
  \<^verbatim>\<open>Workspace.evaluate\<close>. The average divides by \<^verbatim>\<open>num_eval_episodes\<close>: with no
  episode the sum is still the integer 0 and the division raises.
\<close>

definition evaluate :: "'w collab \<Rightarrow> nat \<Rightarrow> 'w workspace \<Rightarrow> status \<times> 'w workspace" where
  "evaluate c fuel ws =
     (let (st, ws1, reward_sum) =
            eval_episodes c fuel (map int [0 ..< nat (num_eval_episodes (cfg ws))]) ws 0
      in if st \<noteq> Returned then (st, ws1)
         else if num_eval_episodes (cfg ws1) = 0 then (Raised ZeroDivisionError, ws1)
         else (Returned,
               ws1\<lparr>trace := trace ws1 @
                      [Logger_log ''eval/episode_reward''
                         (reward_sum / real_of_int (num_eval_episodes (cfg ws1))) (step ws1),
                       Logger_dump (step ws1) None]\<rparr>))"

section \<open>The training loop\<close>

text \<open>The local variables of \<^verbatim>\<open>run\<close>; \<^verbatim>\<open>obs\<close> is unbound until the first reset.\<close>

record run_locals =
  episode :: int
  episode_reward :: real
  episode_step :: int
  done_flag :: real
  cur_obs :: "image option"
  start_time :: real

definition float_of_bool :: "bool \<Rightarrow> real" where
  "float_of_bool d = (if d then 1 else 0)"

text \<open>
  The block under \<^verbatim>\<open>if done:\<close> at the head of the loop body: the duration is logged
  (after the first step), the agent is evaluated every \<^verbatim>\<open>eval_frequency\<close> steps, the
  environment is reset and the episode's locals are reinitialised.
\<close>

definition episode_start ::
  "'w collab \<Rightarrow> nat \<Rightarrow> 'w workspace \<times> run_locals \<Rightarrow> status \<times> 'w workspace \<times> run_locals" where
  "episode_start c fuel s =
     (let (ws, l) = s;
          (ws1, l1) =
            (if 0 < step ws then
               (let (t1, w1) = clock c (world ws);
                    (t2, w2) = clock c w1
                in (ws\<lparr>world := w2,
                       trace := trace ws @
                         [Logger_log ''train/duration'' (t1 - start_time l) (step ws),
                          Logger_dump (step ws) (Some (num_seed_steps (cfg ws) < step ws))]\<rparr>,
                    l\<lparr>start_time := t2\<rparr>))
             else (ws, l))
      in if eval_frequency (cfg ws1) = 0 then (Raised ZeroDivisionError, ws1, l1)
         else
           (let (st, ws2) =
                  (if step ws1 mod eval_frequency (cfg ws1) = 0 then
                     evaluate c fuel
                       (ws1\<lparr>trace := trace ws1 @
                              [Logger_log ''eval/episode'' (real_of_int (episode l1)) (step ws1)]\<rparr>)
                   else (Returned, ws1))
            in if st \<noteq> Returned then (st, ws2, l1)
               else
                 (let (ob, w3) = env_reset c (world ws2);
                      l2 = l1\<lparr>cur_obs := Some ob, done_flag := 0, episode_reward := 0,
                              episode_step := 0, episode := episode l1 + 1\<rparr>
                  in (Returned,
                      ws2\<lparr>world := w3,
                           trace := trace ws2 @
                             [Logger_log ''train/episode_reward'' (episode_reward l1) (step ws2),
                              Env_reset In_run,
                              Logger_log ''train/episode'' (real_of_int (episode l2)) (step ws2)]\<rparr>,
                      l2))))"

text \<open>
  The action for data collection: sampled from the action space during the seed steps,
  chosen by the agent afterwards (which reads \<^verbatim>\<open>obs\<close>).
\<close>

definition select_action ::
  "'w collab \<Rightarrow> 'w workspace \<times> run_locals \<Rightarrow> status \<times> 'w workspace \<times> action" where
  "select_action c s =
     (let (ws, l) = s in
      if step ws < num_seed_steps (cfg ws) then
        (let (act, w1) = action_space_sample c (world ws)
         in (Returned, ws\<lparr>world := w1, trace := trace ws @ [Action_space_sample]\<rparr>, act))
      else
        (case cur_obs l of
           None \<Rightarrow> (Raised UnboundLocalError, ws, [])
         | Some ob \<Rightarrow>
             (let (act, w1) = agent_act c ob True (world ws)
              in (Returned, ws\<lparr>world := w1, trace := trace ws @ [Agent_act ob True]\<rparr>, act))))"

text \<open>
  The updates of one step: \<^verbatim>\<open>for _ in range(num_train_iters): agent.update(...)\<close>, with
  the number of updates left.
\<close>

fun run_updates :: "'w collab \<Rightarrow> nat \<Rightarrow> 'w workspace \<Rightarrow> status \<times> 'w workspace" where
  "run_updates c 0 ws = (Returned, ws)"
| "run_updates c (Suc n) ws =
     (let (r, w1) = agent_update c (replay_buffer ws) (step ws) (world ws);
          ws1 = ws\<lparr>world := w1, trace := trace ws @ [Agent_update (step ws)]\<rparr>
      in case r of
           Some e \<Rightarrow> (Raised e, ws1)
         | None \<Rightarrow> run_updates c n ws1)"

text \<open>
  The environment step and the insertion: \<^verbatim>\<open>done\<close> becomes a float, \<^verbatim>\<open>done_no_max\<close>
  is 0 when the episode reaches \<^verbatim>\<open>_max_episode_steps\<close> and \<^verbatim>\<open>done\<close> otherwise, the
  transition is added to the buffer, and the observation and the two counters advance.
\<close>

definition step_and_add ::
  "'w collab \<Rightarrow> action \<Rightarrow> 'w workspace \<times> run_locals \<Rightarrow> status \<times> 'w workspace \<times> run_locals" where
  "step_and_add c act s =
     (let (ws, l) = s;
          ((next_obs, rew, d), w1) = env_step c act (world ws);
          ws1 = ws\<lparr>world := w1, trace := trace ws @ [Env_step In_run act]\<rparr>;
          done' = float_of_bool d;
          done_no_max = (if episode_step l + 1 = max_episode_steps (env ws1) then 0 else done');
          l1 = l\<lparr>done_flag := done', episode_reward := episode_reward l + rew\<rparr>
      in case cur_obs l1 of
           None \<Rightarrow> (Raised UnboundLocalError, ws1, l1)
         | Some ob \<Rightarrow>
             (let ws2 = ws1\<lparr>trace := trace ws1 @ [Buffer_add ob act rew next_obs done' done_no_max]\<rparr>
              in case buffer_add ob act rew next_obs done' done_no_max (replay_buffer ws2) of
                   Inl e \<Rightarrow> (Raised e, ws2, l1)
                 | Inr b \<Rightarrow>
                     (Returned,
                      ws2\<lparr>replay_buffer := b, step := step ws2 + 1\<rparr>,
                      l1\<lparr>cur_obs := Some next_obs, episode_step := episode_step l1 + 1\<rparr>)))"

text \<open>One iteration of the body of \<^verbatim>\<open>while self.step < self.cfg.num_train_steps\<close>.\<close>

definition run_body ::
  "'w collab \<Rightarrow> nat \<Rightarrow> 'w workspace \<times> run_locals \<Rightarrow> status \<times> 'w workspace \<times> run_locals" where
  "run_body c fuel s =
     (let (st, ws1, l1) =
            (if done_flag (snd s) \<noteq> 0 then episode_start c fuel s else (Returned, s))
      in if st \<noteq> Returned then (st, ws1, l1)
         else
           (let (st2, ws2, act) = select_action c (ws1, l1)
            in if st2 \<noteq> Returned then (st2, ws2, l1)
               else
                 (let (st3, ws3) =
                        (if num_seed_steps (cfg ws2) \<le> step ws2
                         then run_updates c (nat (num_train_iters (cfg ws2))) ws2
                         else (Returned, ws2))
                  in if st3 \<noteq> Returned then (st3, ws3, l1)
                     else step_and_add c act (ws3, l1))))"

section \<open>Traces\<close>

text \<open>
  A routine that only makes quiet calls: the configuration, the environment attributes,
  the buffer and the step counter are as before, and the trace has grown by quiet events.
\<close>

definition quiet_ext :: "'w workspace \<Rightarrow> 'w workspace \<Rightarrow> bool" where
  "quiet_ext ws ws' \<longleftrightarrow>
     cfg ws' = cfg ws \<and> env ws' = env ws \<and> replay_buffer ws' = replay_buffer ws \<and>
     step ws' = step ws \<and> (\<exists>evs. trace ws' = trace ws @ evs \<and> list_all quiet evs)"


text \<open>
  The buffer after the insertions recorded in a trace, in their order; an insertion that
  the buffer refuses leaves it as it was.
\<close>

fun replay_adds :: "event list \<Rightarrow> buffer \<Rightarrow> buffer" where
  "replay_adds [] b = b"
| "replay_adds (Buffer_add ob act rew next_obs d dnm # es) b =
     (case buffer_add ob act rew next_obs d dnm b of
        Inl e \<Rightarrow> replay_adds es b
      | Inr b' \<Rightarrow> replay_adds es b')"
| "replay_adds (e # es) b = replay_adds es b"


text \<open>
  \<open>updates_after n k es\<close>: in the events \<open>es\<close>, which start after \<open>k\<close> insertions, every
  update carries the number of insertions made before it as its step, and that number is
  at least \<open>n\<close>.
\<close>

fun updates_after :: "int \<Rightarrow> int \<Rightarrow> event list \<Rightarrow> bool" where
  "updates_after n k [] = True"
| "updates_after n k (Agent_update j # es) = (j = k \<and> n \<le> k \<and> updates_after n k es)"
| "updates_after n k (Buffer_add ob act rew next_obs d dnm # es) = updates_after n (k + 1) es"
| "updates_after n k (e # es) = updates_after n k es"


section \<open>One iteration of the loop\<close>

subsection \<open>Evaluation makes quiet calls only\<close>

lemma quiet_ext_refl: "quiet_ext ws ws"
  by (simp add: quiet_ext_def)

lemma quiet_ext_trans: "quiet_ext a b \<Longrightarrow> quiet_ext b c \<Longrightarrow> quiet_ext a c"
  unfolding quiet_ext_def by auto

lemma quiet_ext_world: "list_all quiet evs \<Longrightarrow> quiet_ext ws (ws\<lparr>world := w, trace := trace ws @ evs\<rparr>)"
  by (simp add: quiet_ext_def)

lemma quiet_ext_trace: "list_all quiet evs \<Longrightarrow> quiet_ext ws (ws\<lparr>trace := trace ws @ evs\<rparr>)"
  by (simp add: quiet_ext_def)

lemma eval_loop_quiet:
  "eval_loop c n ws ob r k = (st, ws', r') \<Longrightarrow> quiet_ext ws ws'"
proof (induction n arbitrary: ws ob r k)
  case 0
  then show ?case by (simp add: quiet_ext_refl)
next
  case (Suc n)
  obtain act w1 where a: "agent_act c ob False (world ws) = (act, w1)"
    by (cases "agent_act c ob False (world ws)")
  obtain ob' rew d w2 where e: "env_step c act w1 = ((ob', rew, d), w2)"
    by (metis prod.exhaust)
  let ?ws = "ws\<lparr>world := w2,
      trace := trace ws @ [Agent_act ob False, Env_step In_evaluate act, Video_record ob']\<rparr>"
  have q: "quiet_ext ws ?ws"
    by (rule quiet_ext_world) (simp add: quiet_def)
  show ?case
  proof (cases d)
    case True
    with Suc.prems a e q show ?thesis by simp
  next
    case False
    with Suc.prems a e have "eval_loop c n ?ws ob' (r + rew) (k + 1) = (st, ws', r')"
      by simp
    from quiet_ext_trans [OF q Suc.IH [OF this]] show ?thesis .
  qed
qed

lemma eval_episodes_quiet:
  "eval_episodes c fuel eps ws r = (st, ws', r') \<Longrightarrow> quiet_ext ws ws'"
proof (induction eps arbitrary: ws r)
  case Nil
  then show ?case by (simp add: quiet_ext_refl)
next
  case (Cons ep eps)
  obtain ob w1 where a: "env_reset c (world ws) = (ob, w1)"
    by (cases "env_reset c (world ws)")
  let ?ws1 = "ws\<lparr>world := w1, trace := trace ws @ [Env_reset In_evaluate, Video_init (ep = 0)]\<rparr>"
  obtain st1 ws2 er where l: "eval_loop c fuel ?ws1 ob 0 0 = (st1, ws2, er)"
    by (metis prod.exhaust)
  have q1: "quiet_ext ws ?ws1"
    by (rule quiet_ext_world) (simp add: quiet_def)
  have q2: "quiet_ext ws ws2"
    by (rule quiet_ext_trans [OF q1 eval_loop_quiet [OF l]])
  show ?case
  proof (cases "st1 = Returned")
    case False
    with Cons.prems a l q2 show ?thesis by simp
  next
    case True
    let ?ws3 = "ws2\<lparr>trace := trace ws2 @ [Video_save (step ws2)]\<rparr>"
    have q3: "quiet_ext ws ?ws3"
      by (rule quiet_ext_trans [OF q2 quiet_ext_trace]) (simp add: quiet_def)
    from True Cons.prems a l have "eval_episodes c fuel eps ?ws3 (r + er) = (st, ws', r')"
      by simp
    from quiet_ext_trans [OF q3 Cons.IH [OF this]] show ?thesis .
  qed
qed

lemma evaluate_quiet: "evaluate c fuel ws = (st, ws') \<Longrightarrow> quiet_ext ws ws'"
proof -
  assume ev: "evaluate c fuel ws = (st, ws')"
  obtain st1 ws1 r where e:
    "eval_episodes c fuel (map int [0 ..< nat (num_eval_episodes (cfg ws))]) ws 0 = (st1, ws1, r)"
    by (metis prod.exhaust)
  have q: "quiet_ext ws ws1" by (rule eval_episodes_quiet [OF e])
  let ?ws2 = "ws1\<lparr>trace := trace ws1 @
       [Logger_log ''eval/episode_reward'' (r / real_of_int (num_eval_episodes (cfg ws1))) (step ws1),
        Logger_dump (step ws1) None]\<rparr>"
  have q2: "quiet_ext ws ?ws2"
    by (rule quiet_ext_trans [OF q quiet_ext_trace]) (simp add: quiet_def)
  from ev e have "ws' = ws1 \<or> ws' = ?ws2"
    by (auto simp: evaluate_def split: if_splits)
  with q q2 show ?thesis by auto
qed

subsection \<open>The parts of the loop body\<close>

lemma episode_start_quiet:
  "episode_start c fuel (ws, l) = (st, ws', l') \<Longrightarrow> quiet_ext ws ws'"
  by (auto simp: episode_start_def Let_def quiet_ext_def quiet_def
      split: prod.splits if_splits dest!: evaluate_quiet)

lemma episode_start_locals:
  "episode_start c fuel (ws, l) = (Returned, ws', l') \<Longrightarrow>
   episode_step l' = 0 \<and> done_flag l' = 0 \<and> cur_obs l' \<noteq> None"
  by (auto simp: episode_start_def Let_def split: prod.splits if_splits)

lemma select_action_quiet:
  "select_action c (ws, l) = (st, ws', act) \<Longrightarrow> quiet_ext ws ws'"
  by (auto simp: select_action_def Let_def quiet_ext_def quiet_def
      split: prod.splits if_splits option.splits)

lemma run_updates_frame:
  "run_updates c n ws = (st, ws') \<Longrightarrow>
   cfg ws' = cfg ws \<and> env ws' = env ws \<and> replay_buffer ws' = replay_buffer ws \<and>
   step ws' = step ws \<and>
   (\<exists>m. trace ws' = trace ws @ replicate m (Agent_update (step ws)))"
proof (induction n arbitrary: ws)
  case 0
  then show ?case by simp
next
  case (Suc n)
  obtain r w1 where u: "agent_update c (replay_buffer ws) (step ws) (world ws) = (r, w1)"
    by (cases "agent_update c (replay_buffer ws) (step ws) (world ws)")
  let ?ws1 = "ws\<lparr>world := w1, trace := trace ws @ [Agent_update (step ws)]\<rparr>"
  show ?case
  proof (cases r)
    case (Some e)
    with Suc.prems u have "ws' = ?ws1" by simp
    then show ?thesis by (auto intro: exI [of _ 1])
  next
    case None
    with Suc.prems u have "run_updates c n ?ws1 = (st, ws')" by simp
    from Suc.IH [OF this] obtain m where
      "cfg ws' = cfg ws" "env ws' = env ws" "replay_buffer ws' = replay_buffer ws"
      "step ws' = step ws"
      "trace ws' = trace ws @ replicate (Suc m) (Agent_update (step ws))"
      by auto
    then show ?thesis by blast
  qed
qed

lemma step_and_add_returned:
  "step_and_add c act (ws, l) = (Returned, ws', l') \<Longrightarrow>
   \<exists>ob next_obs rew d.
     cur_obs l = Some ob \<and>
     env_step c act (world ws) = ((next_obs, rew, d), world ws') \<and>
     trace ws' = trace ws @
       [Env_step In_run act,
        Buffer_add ob act rew next_obs (float_of_bool d)
          (if episode_step l + 1 = max_episode_steps (env ws) then 0 else float_of_bool d)] \<and>
     buffer_add ob act rew next_obs (float_of_bool d)
          (if episode_step l + 1 = max_episode_steps (env ws) then 0 else float_of_bool d)
          (replay_buffer ws) = Inr (replay_buffer ws') \<and>
     cfg ws' = cfg ws \<and> env ws' = env ws \<and> step ws' = step ws + 1 \<and>
     l' = l\<lparr>done_flag := float_of_bool d, episode_reward := episode_reward l + rew,
            cur_obs := Some next_obs, episode_step := episode_step l + 1\<rparr>"
  by (simp add: step_and_add_def Let_def split: prod.splits option.splits sum.splits
      split del: if_split) fastforce

lemma step_and_add_failed:
  "step_and_add c act (ws, l) = (st, ws', l') \<Longrightarrow> st \<noteq> Returned \<Longrightarrow>
   cfg ws' = cfg ws \<and> env ws' = env ws \<and> step ws' = step ws \<and>
   replay_buffer ws' = replay_buffer ws \<and>
   (trace ws' = trace ws @ [Env_step In_run act] \<or>
    (\<exists>ob next_obs rew d dnm.
       trace ws' = trace ws @ [Env_step In_run act, Buffer_add ob act rew next_obs d dnm] \<and>
       buffer_add ob act rew next_obs d dnm (replay_buffer ws) = Inl ShapeMismatchError))"
proof -
  assume a: "step_and_add c act (ws, l) = (st, ws', l')" and f: "st \<noteq> Returned"
  obtain next_obs rew d w1 where e: "env_step c act (world ws) = ((next_obs, rew, d), w1)"
    by (metis prod.exhaust)
  show ?thesis
  proof (cases "cur_obs l")
    case None
    with a e show ?thesis by (auto simp: step_and_add_def Let_def)
  next
    case (Some ob)
    let ?dnm = "if episode_step l + 1 = max_episode_steps (env ws) then 0 else float_of_bool d"
    show ?thesis
    proof (cases "buffer_add ob act rew next_obs (float_of_bool d) ?dnm (replay_buffer ws)")
      case (Inl err)
      then have "err = ShapeMismatchError"
        by (simp add: buffer_add_def split: if_splits)
      with a e Some Inl show ?thesis
        by (auto simp: step_and_add_def Let_def split del: if_split)
    next
      case (Inr b)
      with a e Some f show ?thesis by (auto simp: step_and_add_def Let_def split del: if_split)
    qed
  qed
qed

subsection \<open>Facts about traces\<close>

lemma replay_adds_append: "replay_adds (es @ es') b = replay_adds es' (replay_adds es b)"
  by (induction es b rule: replay_adds.induct) (auto split: sum.splits)

lemma replay_adds_none: "list_all (\<lambda>e. \<not> is_Buffer_add e) es \<Longrightarrow> replay_adds es b = b"
  by (induction es b rule: replay_adds.induct) auto

lemma quiet_not_add: "list_all quiet es \<Longrightarrow> list_all (\<lambda>e. \<not> is_Buffer_add e) es"
  by (induction es) (auto simp: quiet_def)

lemma quiet_not_update: "list_all quiet es \<Longrightarrow> list_all (\<lambda>e. \<not> is_Agent_update e) es"
  by (induction es) (auto simp: quiet_def)


lemma updates_after_append:
  "updates_after n k (es @ es') \<longleftrightarrow>
   updates_after n k es \<and> updates_after n (k + int (length (filter is_Buffer_add es))) es'"
  by (induction n k es rule: updates_after.induct) (auto simp: add.assoc)

lemma updates_after_no_update:
  "list_all (\<lambda>e. \<not> is_Agent_update e) es \<Longrightarrow> updates_after n k es"
  by (induction n k es rule: updates_after.induct) auto

lemma updates_after_replicate:
  "updates_after n k (replicate m (Agent_update k)) \<longleftrightarrow> (0 < m \<longrightarrow> n \<le> k)"
  by (induction m) auto

lemma filter_adds_replicate [simp]: "filter is_Buffer_add (replicate m (Agent_update k)) = []"
  by (induction m) auto

lemma filter_adds_quiet: "list_all quiet es \<Longrightarrow> filter is_Buffer_add es = []"
  by (induction es) (auto simp: quiet_def)

lemma replay_adds_replicate [simp]: "replay_adds (replicate m (Agent_update k)) b = b"
  by (induction m) auto

lemma updates_after_split:
  "updates_after n k es \<Longrightarrow> es = pre @ Agent_update j # post \<Longrightarrow>
   j = k + int (length (filter is_Buffer_add pre)) \<and> n \<le> j"
  by (simp add: updates_after_append)


subsection \<open>The events of one iteration\<close>

lemma run_body_cases:
  assumes "run_body c fuel (ws, l) = (st, ws', l')"
  obtains
    (start) "done_flag l \<noteq> 0" "episode_start c fuel (ws, l) = (st, ws', l')" "st \<noteq> Returned"
  | (action) ws1 l1 act where
      "(if done_flag l \<noteq> 0 then episode_start c fuel (ws, l) else (Returned, ws, l)) = (Returned, ws1, l1)"
      "select_action c (ws1, l1) = (st, ws', act)" "st \<noteq> Returned" "l' = l1"
  | (update) ws1 l1 ws2 act where
      "(if done_flag l \<noteq> 0 then episode_start c fuel (ws, l) else (Returned, ws, l)) = (Returned, ws1, l1)"
      "select_action c (ws1, l1) = (Returned, ws2, act)"
      "num_seed_steps (cfg ws2) \<le> step ws2"
      "run_updates c (nat (num_train_iters (cfg ws2))) ws2 = (st, ws')" "st \<noteq> Returned" "l' = l1"
  | (step) ws1 l1 ws2 act ws3 where
      "(if done_flag l \<noteq> 0 then episode_start c fuel (ws, l) else (Returned, ws, l)) = (Returned, ws1, l1)"
      "select_action c (ws1, l1) = (Returned, ws2, act)"
      "(if num_seed_steps (cfg ws2) \<le> step ws2
        then run_updates c (nat (num_train_iters (cfg ws2))) ws2 else (Returned, ws2)) = (Returned, ws3)"
      "step_and_add c act (ws3, l1) = (st, ws', l')"
proof -
  obtain st1 ws1 l1 where s1:
    "(if done_flag l \<noteq> 0 then episode_start c fuel (ws, l) else (Returned, ws, l)) = (st1, ws1, l1)"
    by (metis prod.exhaust)
  show ?thesis
  proof (cases "st1 = Returned")
    case False
    with assms s1 have "st = st1" "ws' = ws1" "l' = l1"
      by (auto simp: run_body_def split: if_splits)
    with s1 False start show ?thesis by (auto split: if_splits)
  next
    case r1: True
    obtain st2 ws2 act where s2: "select_action c (ws1, l1) = (st2, ws2, act)"
      by (metis prod.exhaust)
    show ?thesis
    proof (cases "st2 = Returned")
      case False
      with assms s1 r1 s2 have "st = st2" "ws' = ws2" "l' = l1"
        by (auto simp: run_body_def split: if_splits)
      with s1 r1 s2 False action show ?thesis by blast
    next
      case r2: True
      obtain st3 ws3 where s3:
        "(if num_seed_steps (cfg ws2) \<le> step ws2
          then run_updates c (nat (num_train_iters (cfg ws2))) ws2 else (Returned, ws2)) = (st3, ws3)"
        by (metis prod.exhaust)
      show ?thesis
      proof (cases "st3 = Returned")
        case False
        with assms s1 r1 s2 r2 s3 have "st = st3" "ws' = ws3" "l' = l1"
          by (auto simp: run_body_def split: if_splits)
        with s1 r1 s2 r2 s3 False update show ?thesis by (auto split: if_splits)
      next
        case True
        with assms s1 r1 s2 r2 s3 have "step_and_add c act (ws3, l1) = (st, ws', l')"
          by (auto simp: run_body_def split: if_splits)
        with s1 r1 s2 r2 s3 True step show ?thesis by blast
      qed
    qed
  qed
qed

lemma begin_quiet:
  "(if done_flag l \<noteq> 0 then episode_start c fuel (ws, l) else (Returned, ws, l)) = (st, ws1, l1)
   \<Longrightarrow> quiet_ext ws ws1"
  by (auto split: if_splits simp: quiet_ext_refl dest: episode_start_quiet)

lemma updates_frame:
  assumes "(if num_seed_steps (cfg ws) \<le> step ws
            then run_updates c (nat (num_train_iters (cfg ws))) ws else (Returned, ws)) = (st, ws')"
  shows "cfg ws' = cfg ws \<and> env ws' = env ws \<and> replay_buffer ws' = replay_buffer ws \<and>
         step ws' = step ws \<and>
         (\<exists>m. trace ws' = trace ws @ replicate m (Agent_update (step ws)) \<and>
              (0 < m \<longrightarrow> num_seed_steps (cfg ws) \<le> step ws))"
proof (cases "num_seed_steps (cfg ws) \<le> step ws")
  case True
  with assms have "run_updates c (nat (num_train_iters (cfg ws))) ws = (st, ws')" by simp
  from run_updates_frame [OF this] True show ?thesis by auto
next
  case False
  with assms have "ws' = ws" by simp
  then show ?thesis by (auto intro: exI [of _ 0])
qed

lemma quiet_iteration:
  assumes "quiet_ext ws ws'" and "st \<noteq> Returned"
  shows "cfg ws' = cfg ws \<and> env ws' = env ws \<and>
    (\<exists>before m after.
       trace ws' = trace ws @ before @ replicate m (Agent_update (step ws)) @ after \<and>
       list_all quiet before \<and>
       (0 < m \<longrightarrow> num_seed_steps (cfg ws) \<le> step ws) \<and>
       list_all (\<lambda>e. \<not> is_Agent_update e) after \<and>
       length (filter is_Buffer_add after) \<le> 1 \<and>
       replay_buffer ws' = replay_adds after (replay_buffer ws) \<and>
       (if st = Returned
        then step ws' = step ws + 1 \<and> length (filter is_Buffer_add after) = 1
        else step ws' = step ws))"
proof -
  from assms(1) obtain evs where "trace ws' = trace ws @ evs" "list_all quiet evs"
    "cfg ws' = cfg ws" "env ws' = env ws" "replay_buffer ws' = replay_buffer ws"
    "step ws' = step ws"
    unfolding quiet_ext_def by blast
  with assms(2) show ?thesis
    by (intro conjI exI [of _ evs] exI [of _ 0] exI [of _ "[]"]) simp_all
qed

lemma run_body_trace:
  assumes "run_body c fuel (ws, l) = (st, ws', l')"
  shows "cfg ws' = cfg ws \<and> env ws' = env ws \<and>
    (\<exists>before m after.
       trace ws' = trace ws @ before @ replicate m (Agent_update (step ws)) @ after \<and>
       list_all quiet before \<and>
       (0 < m \<longrightarrow> num_seed_steps (cfg ws) \<le> step ws) \<and>
       list_all (\<lambda>e. \<not> is_Agent_update e) after \<and>
       length (filter is_Buffer_add after) \<le> 1 \<and>
       replay_buffer ws' = replay_adds after (replay_buffer ws) \<and>
       (if st = Returned
        then step ws' = step ws + 1 \<and> length (filter is_Buffer_add after) = 1
        else step ws' = step ws))"
  using assms
proof (cases rule: run_body_cases)
  case start
  from episode_start_quiet [OF start(2)] start(3) show ?thesis
    by (rule quiet_iteration)
next
  case (action ws1 l1 act)
  from quiet_ext_trans [OF begin_quiet [OF action(1)] select_action_quiet [OF action(2)]] action(3)
  show ?thesis
    by (rule quiet_iteration)
next
  case (update ws1 l1 ws2 act)
  have q: "quiet_ext ws ws2"
    by (rule quiet_ext_trans [OF begin_quiet [OF update(1)] select_action_quiet [OF update(2)]])
  then obtain before where b: "trace ws2 = trace ws @ before" "list_all quiet before"
    and f: "cfg ws2 = cfg ws" "env ws2 = env ws" "replay_buffer ws2 = replay_buffer ws"
      "step ws2 = step ws"
    unfolding quiet_ext_def by blast
  from run_updates_frame [OF update(4)] obtain m where
    u: "cfg ws' = cfg ws2" "env ws' = env ws2" "replay_buffer ws' = replay_buffer ws2"
      "step ws' = step ws2" "trace ws' = trace ws2 @ replicate m (Agent_update (step ws2))"
    by blast
  have "trace ws' = trace ws @ before @ replicate m (Agent_update (step ws)) @ []"
    using b u f by simp
  with b(2) update(3,5) f u show ?thesis
    by (intro conjI exI [of _ before] exI [of _ m] exI [of _ "[]"]) simp_all
next
  case (step ws1 l1 ws2 act ws3)
  have q: "quiet_ext ws ws2"
    by (rule quiet_ext_trans [OF begin_quiet [OF step(1)] select_action_quiet [OF step(2)]])
  then obtain before where b: "trace ws2 = trace ws @ before" "list_all quiet before"
    and f: "cfg ws2 = cfg ws" "env ws2 = env ws" "replay_buffer ws2 = replay_buffer ws"
      "step ws2 = step ws"
    unfolding quiet_ext_def by blast
  from updates_frame [OF step(3)] obtain m where
    u: "cfg ws3 = cfg ws2" "env ws3 = env ws2" "replay_buffer ws3 = replay_buffer ws2"
      "step ws3 = step ws2" "trace ws3 = trace ws2 @ replicate m (Agent_update (step ws2))"
      "0 < m \<longrightarrow> num_seed_steps (cfg ws2) \<le> step ws2"
    by blast
  show ?thesis
  proof (cases "st = Returned")
    case True
    from step_and_add_returned [OF step(4) [unfolded True]] obtain ob next_obs rew d dnm where
      a: "trace ws' = trace ws3 @ [Env_step In_run act, Buffer_add ob act rew next_obs (float_of_bool d) dnm]"
        "buffer_add ob act rew next_obs (float_of_bool d) dnm (replay_buffer ws3) = Inr (replay_buffer ws')"
        "cfg ws' = cfg ws3" "env ws' = env ws3" "step ws' = step ws3 + 1"
      by blast
    let ?after = "[Env_step In_run act, Buffer_add ob act rew next_obs (float_of_bool d) dnm]"
    have "trace ws' = trace ws @ before @ replicate m (Agent_update (step ws)) @ ?after"
      using a b u f by simp
    moreover have "replay_buffer ws' = replay_adds ?after (replay_buffer ws)"
      using a u f by simp
    ultimately show ?thesis using True b(2) f u a
      by (intro conjI exI [of _ before] exI [of _ m] exI [of _ ?after]) simp_all
  next
    case False
    from step_and_add_failed [OF step(4) False] have
      a: "cfg ws' = cfg ws3" "env ws' = env ws3" "step ws' = step ws3"
        "replay_buffer ws' = replay_buffer ws3"
      and t: "trace ws' = trace ws3 @ [Env_step In_run act] \<or>
        (\<exists>ob next_obs rew d dnm.
          trace ws' = trace ws3 @ [Env_step In_run act, Buffer_add ob act rew next_obs d dnm] \<and>
          buffer_add ob act rew next_obs d dnm (replay_buffer ws3) = Inl ShapeMismatchError)"
      by blast+
    have "\<exists>after. trace ws' = trace ws3 @ after \<and>
        list_all (\<lambda>e. \<not> is_Agent_update e) after \<and>
        length (filter is_Buffer_add after) \<le> 1 \<and>
        replay_adds after (replay_buffer ws3) = replay_buffer ws3"
      using t
    proof (elim disjE exE conjE)
      assume "trace ws' = trace ws3 @ [Env_step In_run act]"
      then show ?thesis
        by (intro exI [of _ "[Env_step In_run act]"]) simp
    next
      fix ob next_obs rew d dnm
      assume "trace ws' = trace ws3 @ [Env_step In_run act, Buffer_add ob act rew next_obs d dnm]"
        and "buffer_add ob act rew next_obs d dnm (replay_buffer ws3) = Inl ShapeMismatchError"
      then show ?thesis
        by (intro exI [of _ "[Env_step In_run act, Buffer_add ob act rew next_obs d dnm]"]) simp
    qed
    then obtain after where
      af: "trace ws' = trace ws3 @ after" "list_all (\<lambda>e. \<not> is_Agent_update e) after"
        "length (filter is_Buffer_add after) \<le> 1"
        "replay_adds after (replay_buffer ws3) = replay_buffer ws3"
      by blast
    have "trace ws' = trace ws @ before @ replicate m (Agent_update (step ws)) @ after"
      using af b u f by simp
    with False b(2) f u a af show ?thesis
      by (intro conjI exI [of _ before] exI [of _ m] exI [of _ after]) simp_all
  qed
qed

section \<open>The loop\<close>

text \<open>
  \<^verbatim>\<open>while self.step < self.cfg.num_train_steps\<close>: an iteration that raises, or whose
  evaluation is cut off, ends the loop with that status. The loop terminates because an
  iteration that returns has advanced the step counter by one.
\<close>

function run_loop ::
  "'w collab \<Rightarrow> nat \<Rightarrow> 'w workspace \<times> run_locals \<Rightarrow> status \<times> 'w workspace \<times> run_locals" where
  "run_loop c fuel s =
     (if step (fst s) < num_train_steps (cfg (fst s)) then
        (let (st, s') = run_body c fuel s
         in if st \<noteq> Returned then (st, s') else run_loop c fuel s')
      else (Returned, s))"
  by pat_completeness auto
termination
proof (relation "measure (\<lambda>(c, fuel, s). nat (num_train_steps (cfg (fst s)) - step (fst s)))")
  show "wf (measure (\<lambda>(c, fuel, s). nat (num_train_steps (cfg (fst s)) - step (fst s))))"
    by simp
next
  fix c :: "'w collab" and fuel s x and st :: status and s'
  assume lt: "step (fst s) < num_train_steps (cfg (fst s))"
    and x: "x = run_body c fuel s" and p: "(st, s') = x" and r: "\<not> st \<noteq> Returned"
  from x p have "run_body c fuel (fst s, snd s) = (st, fst s', snd s')" by simp
  from run_body_trace [OF this] r have "cfg (fst s') = cfg (fst s)" "step (fst s') = step (fst s) + 1"
    by auto
  with lt show "((c, fuel, s'), (c, fuel, s))
       \<in> measure (\<lambda>(c, fuel, s). nat (num_train_steps (cfg (fst s)) - step (fst s)))"
    by simp
qed


text \<open>
  \<^verbatim>\<open>Workspace.run\<close>: the locals start as \<^verbatim>\<open>episode, episode_reward, episode_step, done
  = 0, 0, 1, True\<close>, the clock is read, and the loop runs.
\<close>

definition run :: "'w collab \<Rightarrow> nat \<Rightarrow> 'w workspace \<Rightarrow> status \<times> 'w workspace \<times> run_locals" where
  "run c fuel ws =
     (let (t, w) = clock c (world ws)
      in run_loop c fuel
           (ws\<lparr>world := w\<rparr>,
            \<lparr>episode = 0, episode_reward = 0, episode_step = 1, done_flag = float_of_bool True,
             cur_obs = None, start_time = t\<rparr>))"

declare run_loop.simps [simp del]

subsection \<open>What the loop preserves\<close>

lemma run_body_inv:
  assumes "run_body c fuel (ws, l) = (st, ws', l')"
  shows "cfg ws' = cfg ws \<and> env ws' = env ws \<and>
    (\<exists>evs. trace ws' = trace ws @ evs \<and>
       replay_buffer ws' = replay_adds evs (replay_buffer ws) \<and>
       updates_after (num_seed_steps (cfg ws)) (step ws) evs \<and>
       step ws' = step ws + (if st = Returned then 1 else 0) \<and>
       (st = Returned \<longrightarrow> length (filter is_Buffer_add evs) = 1))"
proof -
  from run_body_trace [OF assms] obtain before m after where
    f: "cfg ws' = cfg ws" "env ws' = env ws"
    and t: "trace ws' = trace ws @ before @ replicate m (Agent_update (step ws)) @ after"
    and q: "list_all quiet before"
    and m: "0 < m \<longrightarrow> num_seed_steps (cfg ws) \<le> step ws"
    and a: "list_all (\<lambda>e. \<not> is_Agent_update e) after"
    and b: "replay_buffer ws' = replay_adds after (replay_buffer ws)"
    and s: "if st = Returned
        then step ws' = step ws + 1 \<and> length (filter is_Buffer_add after) = 1
        else step ws' = step ws"
    by blast
  let ?evs = "before @ replicate m (Agent_update (step ws)) @ after"
  have 1: "replay_buffer ws' = replay_adds ?evs (replay_buffer ws)"
    using b q by (simp add: replay_adds_append replay_adds_none quiet_not_add)
  have 2: "updates_after (num_seed_steps (cfg ws)) (step ws) ?evs"
    using q m a
    by (simp add: updates_after_append updates_after_no_update quiet_not_update
        updates_after_replicate filter_adds_quiet)
  have 3: "step ws' = step ws + (if st = Returned then 1 else 0)"
    using s by (simp split: if_splits)
  have 4: "st = Returned \<longrightarrow> length (filter is_Buffer_add ?evs) = 1"
    using s q by (simp add: filter_adds_quiet)
  from f t 1 2 3 4 show ?thesis by blast
qed

lemma run_loop_inv:
  "run_loop c fuel s = (st, s') \<Longrightarrow>
   cfg (fst s') = cfg (fst s) \<and> env (fst s') = env (fst s) \<and>
   (\<exists>evs. trace (fst s') = trace (fst s) @ evs \<and>
      replay_buffer (fst s') = replay_adds evs (replay_buffer (fst s)) \<and>
      updates_after (num_seed_steps (cfg (fst s))) (step (fst s)) evs)"
proof (induction c fuel s rule: run_loop.induct)
  case (1 c fuel s)
  show ?case
  proof (cases "step (fst s) < num_train_steps (cfg (fst s))")
    case False
    with "1.prems" have "s' = s" by (simp add: run_loop.simps)
    then show ?thesis by (auto intro: exI [of _ "[]"])
  next
    case True
    obtain st1 s1 where b: "run_body c fuel s = (st1, s1)" by (cases "run_body c fuel s")
    then have b': "run_body c fuel (fst s, snd s) = (st1, fst s1, snd s1)" by simp
    from run_body_inv [OF b'] obtain evs1 where
      f: "cfg (fst s1) = cfg (fst s)" "env (fst s1) = env (fst s)"
      and t: "trace (fst s1) = trace (fst s) @ evs1"
      and r: "replay_buffer (fst s1) = replay_adds evs1 (replay_buffer (fst s))"
      and u: "updates_after (num_seed_steps (cfg (fst s))) (step (fst s)) evs1"
      and k: "step (fst s1) = step (fst s) + (if st1 = Returned then 1 else 0)"
      and n: "st1 = Returned \<longrightarrow> length (filter is_Buffer_add evs1) = 1"
      by blast
    show ?thesis
    proof (cases "st1 = Returned")
      case False
      with "1.prems" True b have "s' = s1" by (simp add: run_loop.simps)
      with f t r u show ?thesis by blast
    next
      case Returned: True
      with "1.prems" True b have "run_loop c fuel s1 = (st, s')" by (simp add: run_loop.simps)
      from "1.IH" [OF True b [symmetric] refl _ this] Returned obtain evs2 where
        f2: "cfg (fst s') = cfg (fst s1)" "env (fst s') = env (fst s1)"
        and t2: "trace (fst s') = trace (fst s1) @ evs2"
        and r2: "replay_buffer (fst s') = replay_adds evs2 (replay_buffer (fst s1))"
        and u2: "updates_after (num_seed_steps (cfg (fst s1))) (step (fst s1)) evs2"
        by auto
      have "trace (fst s') = trace (fst s) @ evs1 @ evs2" using t t2 by simp
      moreover have "replay_buffer (fst s') = replay_adds (evs1 @ evs2) (replay_buffer (fst s))"
        using r r2 by (simp add: replay_adds_append)
      moreover have "updates_after (num_seed_steps (cfg (fst s))) (step (fst s)) (evs1 @ evs2)"
        using u u2 f k n Returned by (simp add: updates_after_append)
      ultimately show ?thesis using f f2 by (intro conjI exI [of _ "evs1 @ evs2"]) simp_all
    qed
  qed
qed

subsection \<open>An iteration that returns\<close>

lemma begin_locals:
  assumes "(if done_flag l \<noteq> 0 then episode_start c fuel (ws, l) else (Returned, ws, l)) = (Returned, ws1, l1)"
  shows "episode_step l1 = (if done_flag l \<noteq> 0 then 0 else episode_step l) \<and>
         (done_flag l = 0 \<longrightarrow> l1 = l)"
  using assms by (auto split: if_splits dest: episode_start_locals)

lemma run_body_returned:
  assumes "run_body c fuel (ws, l) = (Returned, ws', l')"
  shows "\<exists>before m ob act rew next_obs d w.
     trace ws' = trace ws @ before @ replicate m (Agent_update (step ws)) @
       [Env_step In_run act,
        Buffer_add ob act rew next_obs (float_of_bool d)
          (if (if done_flag l \<noteq> 0 then 0 else episode_step l) + 1 = max_episode_steps (env ws)
           then 0 else float_of_bool d)] \<and>
     list_all quiet before \<and>
     env_step c act w = ((next_obs, rew, d), world ws') \<and>
     (done_flag l = 0 \<longrightarrow> cur_obs l = Some ob) \<and>
     cur_obs l' = Some next_obs \<and>
     done_flag l' = float_of_bool d \<and>
     episode_step l' = (if done_flag l \<noteq> 0 then 0 else episode_step l) + 1 \<and>
     buffer_add ob act rew next_obs (float_of_bool d)
          (if (if done_flag l \<noteq> 0 then 0 else episode_step l) + 1 = max_episode_steps (env ws)
           then 0 else float_of_bool d) (replay_buffer ws) = Inr (replay_buffer ws') \<and>
     env ws' = env ws"
  using assms
proof (cases rule: run_body_cases)
  case (step ws1 l1 ws2 act ws3)
  let ?k = "if done_flag l \<noteq> 0 then 0 else episode_step l"
  have q: "quiet_ext ws ws2"
    by (rule quiet_ext_trans [OF begin_quiet [OF step(1)] select_action_quiet [OF step(2)]])
  then obtain before where b: "trace ws2 = trace ws @ before" "list_all quiet before"
    and f: "cfg ws2 = cfg ws" "env ws2 = env ws" "replay_buffer ws2 = replay_buffer ws"
      "step ws2 = step ws"
    unfolding quiet_ext_def by blast
  from updates_frame [OF step(3)] obtain m where
    u: "cfg ws3 = cfg ws2" "env ws3 = env ws2" "replay_buffer ws3 = replay_buffer ws2"
      "step ws3 = step ws2" "trace ws3 = trace ws2 @ replicate m (Agent_update (step ws2))"
    by blast
  from begin_locals [OF step(1)] have k: "episode_step l1 = ?k"
    and same: "done_flag l = 0 \<longrightarrow> l1 = l"
    by simp_all
  from step_and_add_returned [OF step(4)] obtain ob next_obs rew d where
    a: "cur_obs l1 = Some ob"
      "env_step c act (world ws3) = ((next_obs, rew, d), world ws')"
      "trace ws' = trace ws3 @
         [Env_step In_run act,
          Buffer_add ob act rew next_obs (float_of_bool d)
            (if episode_step l1 + 1 = max_episode_steps (env ws3) then 0 else float_of_bool d)]"
      "buffer_add ob act rew next_obs (float_of_bool d)
            (if episode_step l1 + 1 = max_episode_steps (env ws3) then 0 else float_of_bool d)
            (replay_buffer ws3) = Inr (replay_buffer ws')"
      "env ws' = env ws3"
      "l' = l1\<lparr>done_flag := float_of_bool d, episode_reward := episode_reward l1 + rew,
              cur_obs := Some next_obs, episode_step := episode_step l1 + 1\<rparr>"
    by blast
  have e: "env ws3 = env ws" using u f by simp
  have t: "trace ws' = trace ws @ before @ replicate m (Agent_update (step ws)) @
       [Env_step In_run act,
        Buffer_add ob act rew next_obs (float_of_bool d)
          (if ?k + 1 = max_episode_steps (env ws) then 0 else float_of_bool d)]"
    using a(3) b(1) u(5) f(4) k e by simp
  have r: "buffer_add ob act rew next_obs (float_of_bool d)
          (if ?k + 1 = max_episode_steps (env ws) then 0 else float_of_bool d)
          (replay_buffer ws) = Inr (replay_buffer ws')"
    using a(4) u(3) f(3) k e by simp
  have o: "done_flag l = 0 \<longrightarrow> cur_obs l = Some ob"
    using same a(1) by auto
  have l: "cur_obs l' = Some next_obs" "done_flag l' = float_of_bool d"
    "episode_step l' = ?k + 1"
    using a(6) k by simp_all
  from t b(2) a(2) o l r a(5) e show ?thesis
    by (intro exI [of _ before] exI [of _ m] exI [of _ ob] exI [of _ act] exI [of _ rew]
        exI [of _ next_obs] exI [of _ d] exI [of _ "world ws3"] conjI) simp_all
qed simp_all

lemma episode_start_reset:
  assumes "episode_start c fuel (ws, l) = (Returned, ws1, l1)"
  shows "\<exists>ob w0 pre.
           env_reset c w0 = (ob, world ws1) \<and> cur_obs l1 = Some ob \<and>
           trace ws1 = trace ws @ pre @ [Env_reset In_run,
             Logger_log ''train/episode'' (real_of_int (episode l1)) (step ws)]"
proof -
  obtain ws0 l0 where a: "(ws0, l0) =
      (if 0 < step ws then
         (let (t1, w1) = clock c (world ws); (t2, w2) = clock c w1
          in (ws\<lparr>world := w2,
                 trace := trace ws @
                   [Logger_log ''train/duration'' (t1 - start_time l) (step ws),
                    Logger_dump (step ws) (Some (num_seed_steps (cfg ws) < step ws))]\<rparr>,
              l\<lparr>start_time := t2\<rparr>))
       else (ws, l))"
    by (metis prod.exhaust)
  have q0: "quiet_ext ws ws0"
    using a by (auto simp: quiet_ext_def quiet_def Let_def split: if_splits prod.splits)
  have nz: "eval_frequency (cfg ws0) \<noteq> 0"
    using assms a [symmetric] by (auto simp: episode_start_def Let_def split: if_splits)
  obtain st2 ws2 where e: "(st2, ws2) =
      (if step ws0 mod eval_frequency (cfg ws0) = 0 then
         evaluate c fuel
           (ws0\<lparr>trace := trace ws0 @
                  [Logger_log ''eval/episode'' (real_of_int (episode l0)) (step ws0)]\<rparr>)
       else (Returned, ws0))"
    by (metis prod.exhaust)
  have q2: "quiet_ext ws0 ws2"
  proof (cases "step ws0 mod eval_frequency (cfg ws0) = 0")
    case True
    with e have "evaluate c fuel
           (ws0\<lparr>trace := trace ws0 @
                  [Logger_log ''eval/episode'' (real_of_int (episode l0)) (step ws0)]\<rparr>) = (st2, ws2)"
      by simp
    from quiet_ext_trans [OF quiet_ext_trace evaluate_quiet [OF this]] show ?thesis
      by (simp add: quiet_def)
  next
    case False
    with e show ?thesis by (simp add: quiet_ext_refl)
  qed
  from quiet_ext_trans [OF q0 q2] obtain evs where
    t: "trace ws2 = trace ws @ evs" and s: "step ws2 = step ws"
    unfolding quiet_ext_def by blast
  obtain ob w3 where r: "env_reset c (world ws2) = (ob, w3)"
    by (cases "env_reset c (world ws2)")
  from assms a [symmetric] nz e [symmetric] r
  have "ws1 = ws2\<lparr>world := w3,
           trace := trace ws2 @
             [Logger_log ''train/episode_reward'' (episode_reward l0) (step ws2),
              Env_reset In_run,
              Logger_log ''train/episode'' (real_of_int (episode l0 + 1)) (step ws2)]\<rparr>"
    and "l1 = l0\<lparr>cur_obs := Some ob, done_flag := 0, episode_reward := 0,
                  episode_step := 0, episode := episode l0 + 1\<rparr>"
    by (auto simp: episode_start_def Let_def split: if_splits)
  with r t s show ?thesis
    by (intro exI [of _ ob] exI [of _ "world ws2"]
        exI [of _ "evs @ [Logger_log ''train/episode_reward'' (episode_reward l0) (step ws2)]"])
      simp
qed

lemma select_action_returned:
  assumes "select_action c (ws, l) = (Returned, ws', act)" and "cur_obs l = Some ob"
  shows "act = (if step ws < num_seed_steps (cfg ws)
                then fst (action_space_sample c (world ws))
                else fst (agent_act c ob True (world ws))) \<and>
         trace ws' = trace ws @
           [if step ws < num_seed_steps (cfg ws) then Action_space_sample else Agent_act ob True]"
  using assms
  by (auto simp: select_action_def Let_def split: if_splits prod.splits)

subsection \<open>A run on a new workspace\<close>

lemma Workspace_init_fields:
  assumes "Workspace_init c cf w = Inr ws"
  shows "cfg ws = cf \<and> step ws = 0 \<and> trace ws = [] \<and>
         ReplayBuffer_call (replay_buffer_args cf (env ws)) = Inr (replay_buffer ws) \<and>
         (\<exists>w'. make_env c cf (set_seed_everywhere c (seed cf) w) = Inr (env ws, w') \<and>
               world ws = instantiate_agent c (observation_space_shape (env ws))
                 (action_space_shape (env ws))
                 (action_space_low_min (env ws), action_space_high_max (env ws)) w')"
  using assms
  by (auto simp: Workspace_init_def Let_def split: sum.splits prod.splits)

lemma ReplayBuffer_call_fields:
  assumes "ReplayBuffer_call args = Inr b"
  shows "0 < capacity b \<and> buffer_size b = 0 \<and> write_index b = 0"
  using assms
  by (auto simp: ReplayBuffer_call_def ReplayBuffer_def
      split: list.splits ctor_arg.splits if_splits)

lemma run_inv:
  assumes "run c fuel ws = (st, ws', l')"
  shows "cfg ws' = cfg ws \<and> env ws' = env ws \<and>
    (\<exists>evs. trace ws' = trace ws @ evs \<and>
       replay_buffer ws' = replay_adds evs (replay_buffer ws) \<and>
       updates_after (num_seed_steps (cfg ws)) (step ws) evs)"
proof -
  obtain t w1 where k: "clock c (world ws) = (t, w1)" by (cases "clock c (world ws)")
  let ?l = "\<lparr>episode = 0, episode_reward = 0, episode_step = 1, done_flag = float_of_bool True,
             cur_obs = None, start_time = t\<rparr>"
  from assms k have "run_loop c fuel (ws\<lparr>world := w1\<rparr>, ?l) = (st, (ws', l'))"
    by (simp add: run_def)
  from run_loop_inv [OF this] show ?thesis by simp
qed

lemma replay_adds_capacity: "capacity (replay_adds es b) = capacity b"
  by (induction es b rule: replay_adds.induct)
    (auto simp: buffer_add_def split: sum.splits if_splits)

lemma replay_adds_nonempty:
  "0 < capacity b \<Longrightarrow> 0 < buffer_size b \<Longrightarrow> 0 < buffer_size (replay_adds es b)"
  by (induction es b rule: replay_adds.induct)
    (auto simp: buffer_add_def split: sum.splits if_splits)

subsection \<open>Sequences of insertions\<close>

lemma buffer_add_well_shaped:
  "well_shaped b t \<Longrightarrow>
   \<exists>b'. buffer_add (t_observation t) (t_action t) (t_reward t) (t_next_observation t)
             (t_done t) (t_done_no_max t) b = Inr b' \<and>
        observation_shape b' = observation_shape b \<and> action_shape b' = action_shape b \<and>
        capacity b' = capacity b \<and>
        write_index b' = (write_index b + 1) mod capacity b \<and>
        buffer_size b' = min (buffer_size b + 1) (capacity b)"
  by (simp add: buffer_add_def well_shaped_def)

lemma well_shaped_cong:
  "observation_shape b' = observation_shape b \<Longrightarrow> action_shape b' = action_shape b \<Longrightarrow>
   well_shaped b' = well_shaped b"
  by (rule ext) (simp add: well_shaped_def)

lemma insert_all_counts:
  "0 < capacity b \<Longrightarrow> buffer_size b \<le> capacity b \<Longrightarrow>
   0 \<le> write_index b \<Longrightarrow> write_index b < capacity b \<Longrightarrow>
   list_all (well_shaped b) ts \<Longrightarrow>
   \<exists>b'. insert_all ts b = Inr b' \<and>
        buffer_size b' = min (buffer_size b + int (length ts)) (capacity b) \<and>
        write_index b' = (write_index b + int (length ts)) mod capacity b"
proof (induction ts arbitrary: b)
  case Nil
  then show ?case by simp
next
  case (Cons t ts)
  from Cons.prems have ws: "well_shaped b t" and rest: "list_all (well_shaped b) ts"
    by simp_all
  from buffer_add_well_shaped [OF ws] obtain b1 where
    add: "buffer_add (t_observation t) (t_action t) (t_reward t) (t_next_observation t)
             (t_done t) (t_done_no_max t) b = Inr b1"
    and shp: "observation_shape b1 = observation_shape b" "action_shape b1 = action_shape b"
    and cap: "capacity b1 = capacity b"
    and wi: "write_index b1 = (write_index b + 1) mod capacity b"
    and sz: "buffer_size b1 = min (buffer_size b + 1) (capacity b)"
    by blast
  have pre: "0 < capacity b1" "buffer_size b1 \<le> capacity b1" "0 \<le> write_index b1"
    "write_index b1 < capacity b1" "list_all (well_shaped b1) ts"
    using Cons.prems(1) rest by (simp_all add: cap wi sz well_shaped_cong [OF shp])
  from Cons.IH [OF pre] obtain b' where
    ins: "insert_all ts b1 = Inr b'"
    and sz': "buffer_size b' = min (buffer_size b1 + int (length ts)) (capacity b1)"
    and wi': "write_index b' = (write_index b1 + int (length ts)) mod capacity b1"
    by blast
  have "buffer_size b' = min (buffer_size b + int (length (t # ts))) (capacity b)"
    using sz' by (simp add: sz cap)
  moreover have "write_index b' = (write_index b + int (length (t # ts))) mod capacity b"
    using wi' by (simp add: wi cap mod_add_left_eq add.assoc)
  ultimately show ?case using add ins by simp
qed

section \<open>A small instance\<close>

text \<open>
  Collaborators over a counter of environment steps since the last reset: an episode ends
  at its second step, every reward is 1, and the clock stands still.
\<close>

definition ex_image :: image where
  "ex_image = \<lparr>img_shape = [3, 1, 1], img_data = [0, 0, 0]\<rparr>"

definition ex_next_image :: image where
  "ex_next_image = \<lparr>img_shape = [3, 1, 1], img_data = [1, 1, 1]\<rparr>"

definition ex_collab :: "nat collab" where
  "ex_collab =
     \<lparr>suite_make = (\<lambda>n. \<lparr>max_episode_steps = 500, observation_space_shape = [3, n, n],
                          action_space_shape = [1], action_space_low_min = - 1,
                          action_space_high_max = 1\<rparr>),
      FrameStack = (\<lambda>e k. e\<lparr>observation_space_shape :=
                      (case observation_space_shape e of [] \<Rightarrow> [] | d # ds \<Rightarrow> (d * k) # ds)\<rparr>),
      set_seed_everywhere = (\<lambda>s w. w),
      env_seed = (\<lambda>s w. w),
      instantiate_agent = (\<lambda>obs_shape act_shape range w. w),
      clock = (\<lambda>w. (0, w)),
      env_reset = (\<lambda>w. (ex_image, 0)),
      env_step = (\<lambda>act w. ((ex_next_image, 1, 2 \<le> Suc w), Suc w)),
      action_space_sample = (\<lambda>w. ([0], w)),
      agent_act = (\<lambda>ob smp w. ([1], w)),
      agent_update = (\<lambda>b k w. (None, w))\<rparr>"

definition ex_cfg :: config where
  "ex_cfg = \<lparr>seed = 1, device = ''cpu'', image_size = 1, frame_stack = 1, image_pad = 4,
     replay_buffer_capacity = 2, num_train_steps = 3, num_seed_steps = 1, num_train_iters = 1,
     eval_frequency = 2, num_eval_episodes = 1\<rparr>"

definition ex_env :: env_attrs where
  "ex_env = \<lparr>max_episode_steps = 250, observation_space_shape = [3, 1, 1],
     action_space_shape = [1], action_space_low_min = - 1, action_space_high_max = 1\<rparr>"

definition ex_buffer :: buffer where
  "ex_buffer = \<lparr>observation_shape = [3, 1, 1], action_shape = [1], capacity = 2, pad = 4,
     buffer_device = ''cpu'', rows = [None, None], write_index = 0, buffer_size = 0\<rparr>"

definition ex_ws :: "nat workspace" where
  "ex_ws = \<lparr>cfg = ex_cfg, env = ex_env, replay_buffer = ex_buffer, step = 0, world = 0,
     trace = []\<rparr>"

definition ex_locals :: run_locals where
  "ex_locals = \<lparr>episode = 0, episode_reward = 0, episode_step = 1, done_flag = 1,
     cur_obs = None, start_time = 0\<rparr>"

definition ex_transition :: transition where
  "ex_transition = \<lparr>t_observation = ex_image, t_action = [0], t_reward = 1,
     t_next_observation = ex_next_image, t_done = 0, t_done_no_max = 0\<rparr>"

text \<open>
  The first two iterations of the loop on this instance, its whole run, and one
  evaluation.
\<close>

definition ex_first_iteration :: "status \<times> nat workspace \<times> run_locals" where
  "ex_first_iteration = run_body ex_collab 5 (ex_ws, ex_locals)"

definition ex_second_iteration :: "status \<times> nat workspace \<times> run_locals" where
  "ex_second_iteration = run_body ex_collab 5 (snd ex_first_iteration)"

definition ex_run :: "status \<times> nat workspace \<times> run_locals" where
  "ex_run = run ex_collab 5 ex_ws"

definition ex_evaluation :: "status \<times> nat workspace" where
  "ex_evaluation = evaluate ex_collab 5 ex_ws"

text \<open>
  An instance whose episodes end at their 250th step, in the iteration that makes that
  step (the trace of the 249 steps before it is left out).
\<close>

definition ex_collab_250 :: "nat collab" where
  "ex_collab_250 = ex_collab\<lparr>env_step := (\<lambda>act w. ((ex_next_image, 1, 250 \<le> Suc w), Suc w))\<rparr>"

definition ex_cfg_250 :: config where
  "ex_cfg_250 = ex_cfg\<lparr>num_train_steps := 1000, num_seed_steps := 100, eval_frequency := 5000\<rparr>"

definition ex_ws_249 :: "nat workspace" where
  "ex_ws_249 = \<lparr>cfg = ex_cfg_250, env = ex_env,
     replay_buffer = ex_buffer\<lparr>rows := [Some ex_transition, Some ex_transition],
       write_index := 1, buffer_size := 2\<rparr>,
     step = 249, world = 249, trace = []\<rparr>"

definition ex_locals_249 :: run_locals where
  "ex_locals_249 = \<lparr>episode = 1, episode_reward = 249, episode_step = 249, done_flag = 0,
     cur_obs = Some ex_next_image, start_time = 0\<rparr>"

definition ex_iteration_250 :: "status \<times> nat workspace \<times> run_locals" where
  "ex_iteration_250 = run_body ex_collab_250 5 (ex_ws_249, ex_locals_249)"

lemma ex_init: "Workspace_init ex_collab ex_cfg 0 = Inr ex_ws"
  by code_simp

lemma ex_run_eq: "run ex_collab 5 ex_ws = (fst ex_run, fst (snd ex_run), snd (snd ex_run))"
  by (simp add: ex_run_def)

lemma ex_first_iteration_returned:
  "run_body ex_collab 5 (ex_ws, ex_locals) =
     (Returned, fst (snd ex_first_iteration), snd (snd ex_first_iteration))"
proof -
  have "fst ex_first_iteration = Returned" by code_simp
  then show ?thesis by (simp add: ex_first_iteration_def [symmetric] prod_eq_iff)
qed

lemma ex_second_iteration_returned:
  "run_body ex_collab 5 (fst (snd ex_first_iteration), snd (snd ex_first_iteration)) =
     (Returned, fst (snd ex_second_iteration), snd (snd ex_second_iteration))"
proof -
  have "fst ex_second_iteration = Returned" by code_simp
  then show ?thesis by (simp add: ex_second_iteration_def [symmetric] prod_eq_iff)
qed

lemma ex_iteration_250_returned:
  "run_body ex_collab_250 5 (ex_ws_249, ex_locals_249) =
     (Returned, fst (snd ex_iteration_250), snd (snd ex_iteration_250))"
proof -
  have "fst ex_iteration_250 = Returned" by code_simp
  then show ?thesis by (simp add: ex_iteration_250_def [symmetric] prod_eq_iff)
qed

section \<open>The claims\<close>

text \<open>
  C1: in every iteration of the training loop that inserts its transition, the
  \<open>done_no_max\<close> passed to the buffer is 0 when \<open>episode_step + 1\<close> equals the
  environment's \<open>_max_episode_steps\<close>, and is the \<open>done\<close> passed with it otherwise.
  (\<open>episode_step\<close> is the local as the assignment reads it: 0 after the reset of this
  iteration, the running counter otherwise.)
\<close>

theorem done_no_max_at_step_limit:
  assumes "run_body c fuel (ws, l) = (Returned, ws', l')"
  shows "\<exists>ob act rew next_obs.
           last (trace ws') =
             Buffer_add ob act rew next_obs (done_flag l')
               (if (if done_flag l \<noteq> 0 then 0 else episode_step l) + 1 = max_episode_steps (env ws')
                then 0 else done_flag l')"
proof -
  from run_body_returned [OF assms] obtain before m ob act rew next_obs d where
    "trace ws' = trace ws @ before @ replicate m (Agent_update (step ws)) @
       [Env_step In_run act,
        Buffer_add ob act rew next_obs (float_of_bool d)
          (if (if done_flag l \<noteq> 0 then 0 else episode_step l) + 1 = max_episode_steps (env ws)
           then 0 else float_of_bool d)]"
    and "done_flag l' = float_of_bool d" and "env ws' = env ws"
    by blast
  then show ?thesis by simp
qed

theorem done_no_max_at_step_limit_witness:
  "run_body ex_collab 5 (fst (snd ex_first_iteration), snd (snd ex_first_iteration)) =
     (Returned, fst (snd ex_second_iteration), snd (snd ex_second_iteration)) \<and>
   (\<exists>ob act rew next_obs.
      last (trace (fst (snd ex_second_iteration))) = Buffer_add ob act rew next_obs 1 1)"
proof -
  have d: "done_flag (snd (snd ex_second_iteration)) = 1" by code_simp
  have n: "episode_step (snd (snd ex_first_iteration)) + 1
             \<noteq> max_episode_steps (env (fst (snd ex_second_iteration)))"
    by code_simp
  have z: "done_flag (snd (snd ex_first_iteration)) = 0" by code_simp
  from done_no_max_at_step_limit [OF ex_second_iteration_returned] d n z
  show ?thesis using ex_second_iteration_returned by simp
qed

text \<open>
  C2, as stated, does not hold: the arguments of the constructor call are not the
  six-tuple of the specification, which ends with a seed.
\<close>

theorem construction_tuple_counterexample:
  "replay_buffer_args ex_cfg ex_env \<noteq> spec_construction_tuple ex_cfg ex_env"
  by (simp add: replay_buffer_args_def spec_construction_tuple_def)

text \<open>
  C2, amended: the buffer is constructed from the five values
  \<open>(observation_shape, action_shape, capacity, pad, device)\<close>. The seed is not among
  them: it goes to \<open>set_seed_everywhere\<close> and to the environment before the buffer is
  built, and a workspace made with any other seed has the same buffer.
\<close>

theorem buffer_constructed_from_five_values:
  assumes "Workspace_init c cf w = Inr ws"
  shows "replay_buffer_args cf (env ws) =
           [Shape_arg (observation_space_shape (env ws)), Shape_arg (action_space_shape (env ws)),
            Int_arg (replay_buffer_capacity cf), Int_arg (image_pad cf), Device_arg (device cf)] \<and>
         ReplayBuffer (observation_space_shape (env ws)) (action_space_shape (env ws))
           (replay_buffer_capacity cf) (image_pad cf) (device cf) = Inr (replay_buffer ws) \<and>
         (\<exists>w'. make_env c cf (set_seed_everywhere c (seed cf) w) = Inr (env ws, w') \<and>
               w' = env_seed c (seed cf) (set_seed_everywhere c (seed cf) w)) \<and>
         (\<exists>ws2. Workspace_init c (cf\<lparr>seed := s\<rparr>) w = Inr ws2 \<and>
                replay_buffer ws2 = replay_buffer ws)"
proof -
  from Workspace_init_fields [OF assms] obtain w' where
    b: "ReplayBuffer_call (replay_buffer_args cf (env ws)) = Inr (replay_buffer ws)"
    and m: "make_env c cf (set_seed_everywhere c (seed cf) w) = Inr (env ws, w')"
    by blast
  have 1: "replay_buffer_args cf (env ws) =
           [Shape_arg (observation_space_shape (env ws)), Shape_arg (action_space_shape (env ws)),
            Int_arg (replay_buffer_capacity cf), Int_arg (image_pad cf), Device_arg (device cf)]"
    by (simp add: replay_buffer_args_def)
  have 2: "ReplayBuffer (observation_space_shape (env ws)) (action_space_shape (env ws))
           (replay_buffer_capacity cf) (image_pad cf) (device cf) = Inr (replay_buffer ws)"
    using b by (simp add: replay_buffer_args_def ReplayBuffer_call_def)
  have 3: "w' = env_seed c (seed cf) (set_seed_everywhere c (seed cf) w)"
    using m by (auto simp: make_env_def Let_def split: if_splits)
  have 4: "make_env c (cf\<lparr>seed := s\<rparr>) (set_seed_everywhere c s w)
      = Inr (env ws, env_seed c s (set_seed_everywhere c s w))"
    using m by (auto simp: make_env_def Let_def split: if_splits)
  have 5: "replay_buffer_args (cf\<lparr>seed := s\<rparr>) (env ws) = replay_buffer_args cf (env ws)"
    by (simp add: replay_buffer_args_def)
  have "\<exists>ws2. Workspace_init c (cf\<lparr>seed := s\<rparr>) w = Inr ws2 \<and>
                replay_buffer ws2 = replay_buffer ws"
    using 4 5 b by (simp add: Workspace_init_def)
  with 1 2 3 m show ?thesis by blast
qed

theorem buffer_constructed_from_five_values_witness:
  "Workspace_init ex_collab ex_cfg 0 = Inr ex_ws \<and>
   ReplayBuffer [3, 1, 1] [1] 2 4 ''cpu'' = Inr ex_buffer \<and>
   (\<exists>ws2. Workspace_init ex_collab (ex_cfg\<lparr>seed := 7\<rparr>) 0 = Inr ws2 \<and>
          replay_buffer ws2 = ex_buffer)"
proof -
  have e: "env ex_ws = ex_env" "replay_buffer ex_ws = ex_buffer" by (simp_all add: ex_ws_def)
  have c: "replay_buffer_capacity ex_cfg = 2" "image_pad ex_cfg = 4" "device ex_cfg = ''cpu''"
    "observation_space_shape ex_env = [3, 1, 1]" "action_space_shape ex_env = [1]"
    by (simp_all add: ex_cfg_def ex_env_def)
  from buffer_constructed_from_five_values [OF ex_init, of 7] ex_init show ?thesis
    by (simp add: e c)
qed

text \<open>
  C3: in a run of the training loop on a newly constructed workspace, every update of the
  agent comes after at least \<open>num_seed_steps\<close> insertions into the buffer; the step it
  is called with is the number of insertions made before it.
\<close>

theorem updates_after_warm_up:
  assumes "Workspace_init c cf w = Inr ws"
    and "run c fuel ws = (st, ws', l')"
    and "trace ws' = pre @ Agent_update k # post"
  shows "num_seed_steps cf \<le> int (length (filter is_Buffer_add pre)) \<and>
         k = int (length (filter is_Buffer_add pre))"
proof -
  from Workspace_init_fields [OF assms(1)] have i: "cfg ws = cf" "step ws = 0" "trace ws = []"
    by simp_all
  from run_inv [OF assms(2)] i have "updates_after (num_seed_steps cf) 0 (trace ws')"
    by auto
  from updates_after_split [OF this assms(3)] show ?thesis by simp
qed

theorem updates_after_warm_up_witness:
  "Workspace_init ex_collab ex_cfg 0 = Inr ex_ws \<and>
   (\<exists>pre post.
      trace (fst (snd ex_run)) = pre @ Agent_update 1 # post \<and>
      num_seed_steps ex_cfg \<le> int (length (filter is_Buffer_add pre)) \<and>
      1 = int (length (filter is_Buffer_add pre)))"
proof -
  have "Agent_update 1 \<in> set (trace (fst (snd ex_run)))" by code_simp
  then obtain pre post where s: "trace (fst (snd ex_run)) = pre @ Agent_update 1 # post"
    by (auto dest: split_list)
  from updates_after_warm_up [OF ex_init ex_run_eq s] s ex_init show ?thesis by blast
qed

text \<open>
  C4: an iteration of the rollout loop that returns has made exactly one environment step
  and exactly one insertion. Its events are a prologue without any rollout step or
  insertion, the choice of the action, the updates, the step, and at once the call of
  \<open>add\<close> with six arguments in this order: the observation the action was chosen for
  (the one \<open>env.reset()\<close> returned in this iteration when an episode starts, the
  current observation otherwise), the action given to the step, the reward, next
  observation and \<open>done\<close> that the step returned, and \<open>done_no_max\<close> as line 218
  computes it. The buffer after the iteration is the result of that insertion.
\<close>

theorem one_insertion_per_step:
  assumes "run_body c fuel (ws, l) = (Returned, ws', l')"
  shows "\<exists>pre m ob act rew next_obs d w1 w.
           trace ws' = trace ws @ pre @
             [if step ws < num_seed_steps (cfg ws) then Action_space_sample else Agent_act ob True] @
             replicate m (Agent_update (step ws)) @
             [Env_step In_run act,
              Buffer_add ob act rew next_obs (float_of_bool d)
                (if (if done_flag l \<noteq> 0 then 0 else episode_step l) + 1 = max_episode_steps (env ws)
                 then 0 else float_of_bool d)] \<and>
           list_all (\<lambda>e. \<not> is_rollout_step e \<and> \<not> is_Buffer_add e) pre \<and>
           (if done_flag l \<noteq> 0
            then \<exists>w0 pre'. env_reset c w0 = (ob, w1) \<and>
                   pre = pre' @ [Env_reset In_run,
                     Logger_log ''train/episode'' (real_of_int (episode l')) (step ws)]
            else cur_obs l = Some ob \<and> w1 = world ws \<and> pre = []) \<and>
           act = (if step ws < num_seed_steps (cfg ws)
                  then fst (action_space_sample c w1) else fst (agent_act c ob True w1)) \<and>
           env_step c act w = ((next_obs, rew, d), world ws') \<and>
           cur_obs l' = Some next_obs \<and>
           buffer_add ob act rew next_obs (float_of_bool d)
             (if (if done_flag l \<noteq> 0 then 0 else episode_step l) + 1 = max_episode_steps (env ws)
              then 0 else float_of_bool d) (replay_buffer ws) = Inr (replay_buffer ws')"
  using assms
proof (cases rule: run_body_cases)
  case (step ws1 l1 ws2 act ws3)
  let ?k = "if done_flag l \<noteq> 0 then 0 else episode_step l"
  let ?sel = "\<lambda>ob. if step ws < num_seed_steps (cfg ws) then Action_space_sample else Agent_act ob True"
  from begin_quiet [OF step(1)] obtain pre where
    p: "trace ws1 = trace ws @ pre" "list_all quiet pre"
    and f1: "cfg ws1 = cfg ws" "env ws1 = env ws" "replay_buffer ws1 = replay_buffer ws"
      "step ws1 = step ws"
    unfolding quiet_ext_def by blast
  from begin_locals [OF step(1)] have k: "episode_step l1 = ?k" by simp
  from step_and_add_returned [OF step(4)] obtain ob next_obs rew d where
    a: "cur_obs l1 = Some ob"
      "env_step c act (world ws3) = ((next_obs, rew, d), world ws')"
      "trace ws' = trace ws3 @
         [Env_step In_run act,
          Buffer_add ob act rew next_obs (float_of_bool d)
            (if episode_step l1 + 1 = max_episode_steps (env ws3) then 0 else float_of_bool d)]"
      "buffer_add ob act rew next_obs (float_of_bool d)
            (if episode_step l1 + 1 = max_episode_steps (env ws3) then 0 else float_of_bool d)
            (replay_buffer ws3) = Inr (replay_buffer ws')"
      "l' = l1\<lparr>done_flag := float_of_bool d, episode_reward := episode_reward l1 + rew,
              cur_obs := Some next_obs, episode_step := episode_step l1 + 1\<rparr>"
    by blast
  from select_action_returned [OF step(2) a(1)] f1 have
    s: "act = (if step ws < num_seed_steps (cfg ws)
               then fst (action_space_sample c (world ws1))
               else fst (agent_act c ob True (world ws1)))"
      "trace ws2 = trace ws1 @ [?sel ob]"
    by simp_all
  from select_action_quiet [OF step(2)] have
    f2: "cfg ws2 = cfg ws1" "env ws2 = env ws1" "replay_buffer ws2 = replay_buffer ws1"
      "step ws2 = step ws1"
    unfolding quiet_ext_def by blast+
  from updates_frame [OF step(3)] obtain m where
    u: "env ws3 = env ws2" "replay_buffer ws3 = replay_buffer ws2"
      "trace ws3 = trace ws2 @ replicate m (Agent_update (step ws2))"
    by blast
  have e: "env ws3 = env ws" "replay_buffer ws3 = replay_buffer ws"
    using u f2 f1 by simp_all
  have t: "trace ws' = trace ws @ pre @ [?sel ob] @ replicate m (Agent_update (step ws)) @
       [Env_step In_run act,
        Buffer_add ob act rew next_obs (float_of_bool d)
          (if ?k + 1 = max_episode_steps (env ws) then 0 else float_of_bool d)]"
    using a(3) u(3) s(2) p(1) f2(4) f1(4) k e(1) by simp
  have q: "list_all (\<lambda>e. \<not> is_rollout_step e \<and> \<not> is_Buffer_add e) pre"
    using p(2) by (induction pre) (auto simp: quiet_def)
  have r: "buffer_add ob act rew next_obs (float_of_bool d)
          (if ?k + 1 = max_episode_steps (env ws) then 0 else float_of_bool d)
          (replay_buffer ws) = Inr (replay_buffer ws')"
    using a(4) k e by simp
  have n: "cur_obs l' = Some next_obs" "episode l' = episode l1"
    using a(5) by simp_all
  have o: "if done_flag l \<noteq> 0
      then \<exists>w0 pre'. env_reset c w0 = (ob, world ws1) \<and>
             pre = pre' @ [Env_reset In_run,
               Logger_log ''train/episode'' (real_of_int (episode l')) (step ws)]
      else cur_obs l = Some ob \<and> world ws1 = world ws \<and> pre = []"
  proof (cases "done_flag l \<noteq> 0")
    case True
    with step(1) have "episode_start c fuel (ws, l) = (Returned, ws1, l1)" by simp
    from episode_start_reset [OF this] obtain ob1 w0 pre' where
      "env_reset c w0 = (ob1, world ws1)" "cur_obs l1 = Some ob1"
      "trace ws1 = trace ws @ pre' @ [Env_reset In_run,
         Logger_log ''train/episode'' (real_of_int (episode l1)) (step ws)]"
      by blast
    with a(1) p(1) n(2) True show ?thesis by auto
  next
    case False
    with step(1) have "ws1 = ws" "l1 = l" by simp_all
    with a(1) p(1) False show ?thesis by simp
  qed
  from t q o s(1) a(2) n(1) r show ?thesis
    by (intro exI [of _ pre] exI [of _ m] exI [of _ ob] exI [of _ act] exI [of _ rew]
        exI [of _ next_obs] exI [of _ d] exI [of _ "world ws1"] exI [of _ "world ws3"] conjI)
      simp_all
qed simp_all

theorem one_insertion_per_step_witness:
  "run_body ex_collab 5 (ex_ws, ex_locals) =
     (Returned, fst (snd ex_first_iteration), snd (snd ex_first_iteration)) \<and>
   done_flag ex_locals \<noteq> 0 \<and>
   (\<exists>pre' m w0 w1 w.
      trace (fst (snd ex_first_iteration)) =
        pre' @ [Env_reset In_run, Logger_log ''train/episode'' 1 0, Action_space_sample] @
        replicate m (Agent_update 0) @
        [Env_step In_run [0], Buffer_add ex_image [0] 1 ex_next_image 0 0] \<and>
      env_reset ex_collab w0 = (ex_image, w1) \<and>
      [0] = fst (action_space_sample ex_collab w1) \<and>
      env_step ex_collab [0] w = ((ex_next_image, 1, False), world (fst (snd ex_first_iteration)))) \<and>
   run_body ex_collab 5 (fst (snd ex_first_iteration), snd (snd ex_first_iteration)) =
     (Returned, fst (snd ex_second_iteration), snd (snd ex_second_iteration)) \<and>
   cur_obs (snd (snd ex_first_iteration)) = Some ex_next_image \<and>
   (\<exists>m w.
      trace (fst (snd ex_second_iteration)) =
        trace (fst (snd ex_first_iteration)) @ [Agent_act ex_next_image True] @
        replicate m (Agent_update 1) @
        [Env_step In_run [1], Buffer_add ex_next_image [1] 1 ex_next_image 1 1] \<and>
      env_step ex_collab [1] w = ((ex_next_image, 1, True), world (fst (snd ex_second_iteration))))"
proof -
  have d1: "done_flag ex_locals \<noteq> 0" by (simp add: ex_locals_def)
  have l1: "last (trace (fst (snd ex_first_iteration))) =
      Buffer_add ex_image [0] 1 ex_next_image 0 0"
    by code_simp
  have c1: "step ex_ws = 0" "num_seed_steps (cfg ex_ws) = 1" "trace ex_ws = []"
    "episode (snd (snd ex_first_iteration)) = 1"
    by code_simp+
  from one_insertion_per_step [OF ex_first_iteration_returned] d1
  obtain pre m ob act rew next_obs d w1 w w0 pre' where
    t: "trace (fst (snd ex_first_iteration)) = trace ex_ws @ pre @
             [if step ex_ws < num_seed_steps (cfg ex_ws) then Action_space_sample
              else Agent_act ob True] @
             replicate m (Agent_update (step ex_ws)) @
             [Env_step In_run act,
              Buffer_add ob act rew next_obs (float_of_bool d)
                (if (if done_flag ex_locals \<noteq> 0 then 0 else episode_step ex_locals) + 1
                    = max_episode_steps (env ex_ws)
                 then 0 else float_of_bool d)]"
    and r: "env_reset ex_collab w0 = (ob, w1)"
    and p: "pre = pre' @ [Env_reset In_run,
              Logger_log ''train/episode'' (real_of_int (episode (snd (snd ex_first_iteration))))
                (step ex_ws)]"
    and a: "act = (if step ex_ws < num_seed_steps (cfg ex_ws)
                  then fst (action_space_sample ex_collab w1)
                  else fst (agent_act ex_collab ob True w1))"
    and e: "env_step ex_collab act w = ((next_obs, rew, d), world (fst (snd ex_first_iteration)))"
    by auto
  from t l1 have v: "ob = ex_image" "act = [0]" "rew = 1" "next_obs = ex_next_image"
    "float_of_bool d = 0"
    by simp_all
  then have d: "d = False" by (simp add: float_of_bool_def split: if_splits)
  have first: "\<exists>pre' m w0 w1 w.
      trace (fst (snd ex_first_iteration)) =
        pre' @ [Env_reset In_run, Logger_log ''train/episode'' 1 0, Action_space_sample] @
        replicate m (Agent_update 0) @
        [Env_step In_run [0], Buffer_add ex_image [0] 1 ex_next_image 0 0] \<and>
      env_reset ex_collab w0 = (ex_image, w1) \<and>
      [0] = fst (action_space_sample ex_collab w1) \<and>
      env_step ex_collab [0] w = ((ex_next_image, 1, False), world (fst (snd ex_first_iteration)))"
    using t r p a e l1 v d c1
    by (intro exI [of _ pre'] exI [of _ m] exI [of _ w0] exI [of _ w1] exI [of _ w]) simp
  have d2: "done_flag (snd (snd ex_first_iteration)) = 0" by code_simp
  have o2: "cur_obs (snd (snd ex_first_iteration)) = Some ex_next_image" by code_simp
  have l2: "last (trace (fst (snd ex_second_iteration))) =
      Buffer_add ex_next_image [1] 1 ex_next_image 1 1"
    by code_simp
  have c2: "step (fst (snd ex_first_iteration)) = 1"
    "num_seed_steps (cfg (fst (snd ex_first_iteration))) = 1"
    by code_simp+
  from one_insertion_per_step [OF ex_second_iteration_returned] d2
  obtain pre2 m2 ob2 act2 rew2 next_obs2 b2 w2 where
    t2: "trace (fst (snd ex_second_iteration)) = trace (fst (snd ex_first_iteration)) @ pre2 @
             [if step (fst (snd ex_first_iteration))
                   < num_seed_steps (cfg (fst (snd ex_first_iteration)))
              then Action_space_sample else Agent_act ob2 True] @
             replicate m2 (Agent_update (step (fst (snd ex_first_iteration)))) @
             [Env_step In_run act2,
              Buffer_add ob2 act2 rew2 next_obs2 (float_of_bool b2)
                (if (if done_flag (snd (snd ex_first_iteration)) \<noteq> 0 then 0
                     else episode_step (snd (snd ex_first_iteration))) + 1
                    = max_episode_steps (env (fst (snd ex_first_iteration)))
                 then 0 else float_of_bool b2)]"
    and p2: "pre2 = []"
    and e2: "env_step ex_collab act2 w2
               = ((next_obs2, rew2, b2), world (fst (snd ex_second_iteration)))"
    by auto
  from t2 l2 have v2: "ob2 = ex_next_image" "act2 = [1]" "rew2 = 1" "next_obs2 = ex_next_image"
    "float_of_bool b2 = 1"
    by simp_all
  then have b2: "b2 = True" by (simp add: float_of_bool_def split: if_splits)
  have second: "\<exists>m w.
      trace (fst (snd ex_second_iteration)) =
        trace (fst (snd ex_first_iteration)) @ [Agent_act ex_next_image True] @
        replicate m (Agent_update 1) @
        [Env_step In_run [1], Buffer_add ex_next_image [1] 1 ex_next_image 1 1] \<and>
      env_step ex_collab [1] w = ((ex_next_image, 1, True), world (fst (snd ex_second_iteration)))"
    using t2 p2 e2 l2 v2 b2 c2
    by (intro exI [of _ m2] exI [of _ w2]) simp
  from ex_first_iteration_returned d1 first ex_second_iteration_returned o2 second
  show ?thesis by blast
qed

text \<open>
  C5: after any sequence of insertions into a newly constructed buffer, the size is the
  minimum of the number of insertions and the capacity, and the write index is the number
  of insertions modulo the capacity. (Every insertion of a transition of the configured
  shapes succeeds.)
\<close>

theorem capacity_invariant:
  assumes "ReplayBuffer obs_shape act_shape cap p dev = Inr b0"
    and "list_all (well_shaped b0) ts"
  shows "\<exists>b. insert_all ts b0 = Inr b \<and>
             buffer_size b = min (int (length ts)) (capacity b0) \<and>
             write_index b = int (length ts) mod capacity b0"
proof -
  from assms(1) have "0 < capacity b0" "buffer_size b0 = 0" "write_index b0 = 0"
    by (auto simp: ReplayBuffer_def split: if_splits)
  with insert_all_counts [of b0 ts] assms(2) show ?thesis by simp
qed

theorem capacity_invariant_witness:
  "ReplayBuffer [3, 1, 1] [1] 2 4 ''cpu'' = Inr ex_buffer \<and>
   list_all (well_shaped ex_buffer) [ex_transition, ex_transition, ex_transition] \<and>
   (\<exists>b. insert_all [ex_transition, ex_transition, ex_transition] ex_buffer = Inr b \<and>
        buffer_size b = 2 \<and> write_index b = 1)"
proof -
  have c: "ReplayBuffer [3, 1, 1] [1] 2 4 ''cpu'' = Inr ex_buffer"
    by (simp add: ReplayBuffer_def ex_buffer_def eval_nat_numeral)
  have w: "list_all (well_shaped ex_buffer) [ex_transition, ex_transition, ex_transition]"
    by (simp add: well_shaped_def ex_buffer_def ex_transition_def ex_image_def ex_next_image_def)
  from capacity_invariant [OF c w] show ?thesis
    using c w by (simp add: ex_buffer_def)
qed

text \<open>
  C6: the buffer of a workspace is the one its constructor built, empty; after a run it is
  that buffer with the insertions of the trace applied, in their order, and nothing else;
  and from any point of the run at which it holds a row, it holds one at every later point.
\<close>

theorem buffer_changed_by_insertion_only:
  assumes "Workspace_init c cf w = Inr ws"
    and "run c fuel ws = (st, ws', l')"
  shows "ReplayBuffer_call (replay_buffer_args cf (env ws)) = Inr (replay_buffer ws) \<and>
         buffer_size (replay_buffer ws) = 0 \<and>
         replay_buffer ws' = replay_adds (trace ws') (replay_buffer ws) \<and>
         (\<forall>pre post. trace ws' = pre @ post \<longrightarrow>
            0 < buffer_size (replay_adds pre (replay_buffer ws)) \<longrightarrow>
            0 < buffer_size (replay_adds (pre @ post) (replay_buffer ws)))"
proof -
  from Workspace_init_fields [OF assms(1)] have i: "trace ws = []"
    and b: "ReplayBuffer_call (replay_buffer_args cf (env ws)) = Inr (replay_buffer ws)"
    by simp_all
  from ReplayBuffer_call_fields [OF b] have c: "0 < capacity (replay_buffer ws)"
    and z: "buffer_size (replay_buffer ws) = 0"
    by simp_all
  from run_inv [OF assms(2)] i
  have r: "replay_buffer ws' = replay_adds (trace ws') (replay_buffer ws)"
    by auto
  have "0 < buffer_size (replay_adds (pre @ post) (replay_buffer ws))"
    if "0 < buffer_size (replay_adds pre (replay_buffer ws))" for pre post
    using that c by (simp add: replay_adds_append replay_adds_nonempty replay_adds_capacity)
  with b z r show ?thesis by blast
qed

theorem buffer_changed_by_insertion_only_witness:
  "Workspace_init ex_collab ex_cfg 0 = Inr ex_ws \<and>
   ReplayBuffer_call (replay_buffer_args ex_cfg (env ex_ws)) = Inr ex_buffer \<and>
   replay_buffer (fst (snd ex_run)) = replay_adds (trace (fst (snd ex_run))) ex_buffer \<and>
   0 < buffer_size (replay_adds (take 18 (trace (fst (snd ex_run)))) ex_buffer) \<and>
   0 < buffer_size (replay_buffer (fst (snd ex_run)))"
proof -
  have b: "replay_buffer ex_ws = ex_buffer" by (simp add: ex_ws_def)
  have p: "0 < buffer_size (replay_adds (take 18 (trace (fst (snd ex_run)))) ex_buffer)"
    by code_simp
  have t: "trace (fst (snd ex_run)) =
      take 18 (trace (fst (snd ex_run))) @ drop 18 (trace (fst (snd ex_run)))"
    by simp
  from buffer_changed_by_insertion_only [OF ex_init ex_run_eq] b p t ex_init
  show ?thesis by (metis append_take_drop_id)
qed

text \<open>
  C7: within one iteration of the loop the reader and the writer run one after the other:
  the events of the iteration are quiet calls, then all the updates of this step, then
  events without any update, among them at most one insertion, which is the only change
  to the buffer. So every update of a step is complete before that step's transition is
  inserted.
\<close>

theorem updates_before_insertion:
  assumes "run_body c fuel (ws, l) = (st, ws', l')"
  shows "\<exists>before m after.
           trace ws' = trace ws @ before @ replicate m (Agent_update (step ws)) @ after \<and>
           list_all quiet before \<and>
           list_all (\<lambda>e. \<not> is_Agent_update e) after \<and>
           length (filter is_Buffer_add after) \<le> 1 \<and>
           replay_buffer ws' = replay_adds after (replay_buffer ws)"
  using run_body_trace [OF assms] by blast

theorem updates_before_insertion_witness:
  "run_body ex_collab 5 (fst (snd ex_first_iteration), snd (snd ex_first_iteration)) =
     (Returned, fst (snd ex_second_iteration), snd (snd ex_second_iteration)) \<and>
   Agent_update 1 \<in> set (trace (fst (snd ex_second_iteration))) \<and>
   (\<exists>before m after.
      trace (fst (snd ex_second_iteration)) =
        trace (fst (snd ex_first_iteration)) @ before @ replicate m (Agent_update 1) @ after \<and>
      list_all quiet before \<and>
      list_all (\<lambda>e. \<not> is_Agent_update e) after \<and>
      length (filter is_Buffer_add after) \<le> 1 \<and>
      replay_buffer (fst (snd ex_second_iteration)) =
        replay_adds after (replay_buffer (fst (snd ex_first_iteration))))"
proof -
  have s: "step (fst (snd ex_first_iteration)) = 1" by code_simp
  have u: "Agent_update 1 \<in> set (trace (fst (snd ex_second_iteration)))" by code_simp
  from updates_before_insertion [OF ex_second_iteration_returned] s u
  show ?thesis using ex_second_iteration_returned by simp
qed

text \<open>
  C8: when the environment reports a terminal state on the very step at which
  \<open>episode_step + 1\<close> equals \<open>_max_episode_steps\<close>, the transition is inserted with
  \<open>done = 1\<close> and \<open>done_no_max = 0\<close>.
\<close>

theorem terminal_at_step_limit_is_truncation:
  assumes "run_body c fuel (ws, l) = (Returned, ws', l')"
    and "(if done_flag l \<noteq> 0 then 0 else episode_step l) + 1 = max_episode_steps (env ws)"
    and "done_flag l' = 1"
  shows "\<exists>ob act rew next_obs. last (trace ws') = Buffer_add ob act rew next_obs 1 0"
proof -
  from run_body_returned [OF assms(1)] obtain before m ob act rew next_obs d where
    "trace ws' = trace ws @ before @ replicate m (Agent_update (step ws)) @
       [Env_step In_run act,
        Buffer_add ob act rew next_obs (float_of_bool d)
          (if (if done_flag l \<noteq> 0 then 0 else episode_step l) + 1 = max_episode_steps (env ws)
           then 0 else float_of_bool d)]"
    and "done_flag l' = float_of_bool d"
    by blast
  with assms(2,3) show ?thesis by simp
qed

theorem terminal_at_step_limit_is_truncation_witness:
  "run_body ex_collab_250 5 (ex_ws_249, ex_locals_249) =
     (Returned, fst (snd ex_iteration_250), snd (snd ex_iteration_250)) \<and>
   episode_step ex_locals_249 + 1 = max_episode_steps (env ex_ws_249) \<and>
   done_flag (snd (snd ex_iteration_250)) = 1 \<and>
   (\<exists>ob act rew next_obs.
      last (trace (fst (snd ex_iteration_250))) = Buffer_add ob act rew next_obs 1 0)"
proof -
  have d: "done_flag (snd (snd ex_iteration_250)) = 1" by code_simp
  have n: "(if done_flag ex_locals_249 \<noteq> 0 then 0 else episode_step ex_locals_249) + 1
             = max_episode_steps (env ex_ws_249)"
    by code_simp
  have n': "episode_step ex_locals_249 + 1 = max_episode_steps (env ex_ws_249)"
    by code_simp
  from terminal_at_step_limit_is_truncation [OF ex_iteration_250_returned n d]
  show ?thesis using ex_iteration_250_returned d n' by simp
qed

text \<open>
  C9: whatever the configuration, the environment of a workspace has
  \<open>_max_episode_steps = 250\<close>, the constant that \<open>make_env\<close> sets, provided the
  \<open>FrameStack\<close> wrapper hands the attribute of the wrapped environment on.
\<close>

theorem max_episode_steps_hard_coded:
  assumes "Workspace_init c cf w = Inr ws"
    and "\<forall>e k. max_episode_steps (FrameStack c e k) = max_episode_steps e"
  shows "max_episode_steps (env ws) = 250"
proof -
  from Workspace_init_fields [OF assms(1)] obtain w' where
    "make_env c cf (set_seed_everywhere c (seed cf) w) = Inr (env ws, w')"
    by blast
  then have "env ws = FrameStack c ((suite_make c (image_size cf))\<lparr>max_episode_steps := 250\<rparr>)
      (frame_stack cf)"
    by (auto simp: make_env_def Let_def split: if_splits)
  with assms(2) show ?thesis by simp
qed

theorem max_episode_steps_hard_coded_witness:
  "Workspace_init ex_collab ex_cfg 0 = Inr ex_ws \<and>
   max_episode_steps (FrameStack ex_collab (suite_make ex_collab 1) 3)
     = max_episode_steps (suite_make ex_collab 1) \<and>
   max_episode_steps (env ex_ws) = 250"
proof -
  have f: "\<forall>e k. max_episode_steps (FrameStack ex_collab e k) = max_episode_steps e"
    by (simp add: ex_collab_def)
  from max_episode_steps_hard_coded [OF ex_init f] f ex_init show ?thesis by simp
qed

text \<open>
  C10: \<open>evaluate\<close> leaves the replay buffer as it found it, rows, size and write index,
  however it ends, and calls no insertion.
\<close>

theorem evaluate_keeps_buffer:
  "replay_buffer (snd (evaluate c fuel ws)) = replay_buffer ws \<and>
   (\<exists>evs. trace (snd (evaluate c fuel ws)) = trace ws @ evs \<and>
      list_all (\<lambda>e. \<not> is_Buffer_add e) evs)"
proof -
  have "evaluate c fuel ws = (fst (evaluate c fuel ws), snd (evaluate c fuel ws))"
    by simp
  from evaluate_quiet [OF this] show ?thesis
    unfolding quiet_ext_def by (auto dest: quiet_not_add)
qed

theorem evaluate_keeps_buffer_witness:
  "fst ex_evaluation = Returned \<and>
   Env_step In_evaluate [1] \<in> set (trace (snd ex_evaluation)) \<and>
   replay_buffer (snd ex_evaluation) = ex_buffer \<and>
   (\<exists>evs. trace (snd ex_evaluation) = evs \<and> list_all (\<lambda>e. \<not> is_Buffer_add e) evs)"
proof -
  have r: "fst ex_evaluation = Returned" by code_simp
  have s: "Env_step In_evaluate [1] \<in> set (trace (snd ex_evaluation))" by code_simp
  from evaluate_keeps_buffer [of ex_collab 5 ex_ws] r s show ?thesis
    by (simp add: ex_evaluation_def ex_ws_def)
qed

end
